theory Spec2Isabelle
  imports Main "HOL-Library.Signed_Division"
begin

section \<open>The record codec of esutil: \<^verbatim>\<open>recfile/records.cpp\<close>\<close>

text \<open>
  A shallow embedding of the class \<^verbatim>\<open>Records\<close>. The member variables are the fields of
  the record \<open>records\<close>; every member function is a function from the state to
  \<open>error + state\<close>, where the error is what the source throws.

  Conventions.
  \<^item> \<^verbatim>\<open>long long\<close> and \<^verbatim>\<open>npy_intp\<close> values are \<open>int\<close>. Signed overflow is undefined in
    C, so the model is about the values for which the C arithmetic is exact; the
    narrowing conversions of the source to \<^verbatim>\<open>int\<close> (\<^verbatim>\<open>int nread = fread(...)\<close>,
    \<^verbatim>\<open>int size_per_el\<close>, \<^verbatim>\<open>int type_num\<close>) are written out.
  \<^item> a byte of a file or of a buffer is a \<open>char\<close>; a C \<^verbatim>\<open>char\<close> variable that receives the
    result of \<^verbatim>\<open>fgetc\<close> is the \<open>int\<close> that a signed 8-bit \<^verbatim>\<open>char\<close> holds (the plain \<^verbatim>\<open>char\<close>
    of x86).
  \<^item> the header \<^verbatim>\<open>records.hpp\<close>, NumPy and the C library are not part of the sources:
    NumPy's type numbers and format macros and the C library's \<^verbatim>\<open>fscanf\<close> and
    \<^verbatim>\<open>fprintf\<close> are parameters, collected in the record \<open>platform\<close>.
\<close>

subsection \<open>The C library's streams\<close>

text \<open>
  A \<^verbatim>\<open>FILE*\<close>: the bytes of the file, the cursor, the end-of-file indicator, whether
  the stream can seek, and how many more bytes the device accepts when written to
  (\<open>None\<close>: as many as are written).
\<close>

record cfile =
  content :: string
  pos :: nat
  eof :: bool
  seekable :: bool
  room :: "nat option"

definition EOF :: int where
  "EOF = - 1"

definition NUL :: char where
  "NUL = CHR 0x00"

definition NEWLINE :: char where
  "NEWLINE = CHR 0x0A"

definition SPACE :: char where
  "SPACE = CHR 0x20"

text \<open>\<^verbatim>\<open>fgetc\<close>: the next byte as an \<open>int\<close> in 0..255, or \<open>EOF\<close>.\<close>

definition fgetc :: "cfile \<Rightarrow> int \<times> cfile" where
  "fgetc f =
     (if pos f < length (content f)
      then (of_char (content f ! pos f), f\<lparr>pos := pos f + 1\<rparr>)
      else (EOF, f\<lparr>eof := True\<rparr>))"

text \<open>
  \<^verbatim>\<open>fread(ptr, size, nmemb, f)\<close>: the bytes transferred, the number of complete items,
  and the stream afterwards.
\<close>

definition fread :: "int \<Rightarrow> int \<Rightarrow> cfile \<Rightarrow> string \<times> int \<times> cfile" where
  "fread sz nmemb f =
     (if sz \<le> 0 \<or> nmemb \<le> 0 then ([], 0, f)
      else
        let bs = take (nat (sz * nmemb)) (drop (pos f) (content f)) in
        (bs, int (length bs) div sz,
         f\<lparr>pos := pos f + length bs,
           eof := (eof f \<or> int (length bs) < sz * nmemb)\<rparr>))"

text \<open>\<^verbatim>\<open>fseeko(f, off, SEEK_CUR)\<close>: 0 on success.\<close>

definition fseeko :: "int \<Rightarrow> cfile \<Rightarrow> int \<times> cfile" where
  "fseeko off f =
     (if \<not> seekable f \<or> int (pos f) + off < 0 then (- 1, f)
      else (0, f\<lparr>pos := nat (int (pos f) + off), eof := False\<rparr>))"

text \<open>\<^verbatim>\<open>fputc\<close>: the byte written, or \<open>EOF\<close> when the device takes no more.\<close>

definition fputc :: "char \<Rightarrow> cfile \<Rightarrow> int \<times> cfile" where
  "fputc c f =
     (case room f of
        None \<Rightarrow> (of_char c, f\<lparr>content := content f @ [c]\<rparr>)
      | Some n \<Rightarrow>
          if n = 0 then (EOF, f)
          else (of_char c, f\<lparr>content := content f @ [c], room := Some (n - 1)\<rparr>))"

text \<open>
  \<^verbatim>\<open>fprintf(f, "%s", s)\<close> and every other formatted output of a text already rendered:
  the number of bytes written, negative when the device did not take them all.
\<close>

definition fputs :: "string \<Rightarrow> cfile \<Rightarrow> int \<times> cfile" where
  "fputs str f =
     (case room f of
        None \<Rightarrow> (int (length str), f\<lparr>content := content f @ str\<rparr>)
      | Some n \<Rightarrow>
          if length str \<le> n
          then (int (length str),
                f\<lparr>content := content f @ str, room := Some (n - length str)\<rparr>)
          else (- 1, f\<lparr>content := content f @ take n str, room := Some 0\<rparr>))"

text \<open>
  \<^verbatim>\<open>fwrite(ptr, size, nmemb, f)\<close> of the bytes at \<^verbatim>\<open>ptr\<close>: the number of complete items
  written.
\<close>

definition fwrite :: "string \<Rightarrow> int \<Rightarrow> int \<Rightarrow> cfile \<Rightarrow> int \<times> cfile" where
  "fwrite bytes sz nmemb f =
     (if sz \<le> 0 \<or> nmemb \<le> 0 then (0, f)
      else
        let want = take (nat (sz * nmemb)) bytes;
            bs = (case room f of None \<Rightarrow> want | Some n \<Rightarrow> take n want)
        in (int (length bs) div sz,
            f\<lparr>content := content f @ bs,
              room := map_option (\<lambda>n. n - length bs) (room f)\<rparr>))"

text \<open>The value of a \<^verbatim>\<open>char\<close> variable (signed, 8 bits) after \<^verbatim>\<open>c = fgetc(f)\<close>.\<close>

definition to_char :: "int \<Rightarrow> int" where
  "to_char r = (r + 128) mod 256 - 128"

text \<open>The byte stored by \<^verbatim>\<open>*buff = c\<close>.\<close>

definition byte_of :: "int \<Rightarrow> char" where
  "byte_of c = char_of (c mod 256)"

text \<open>The value of an \<^verbatim>\<open>int\<close> variable that receives a \<^verbatim>\<open>size_t\<close>.\<close>

definition to_int32 :: "int \<Rightarrow> int" where
  "to_int32 n = (n + 2147483648) mod 4294967296 - 2147483648"

text \<open>\<^verbatim>\<open>std::string(const char*)\<close>: the bytes before the first null byte.\<close>

definition c_str :: "string \<Rightarrow> string" where
  "c_str s = takeWhile (\<lambda>c. c \<noteq> NUL) s"

text \<open>\<^verbatim>\<open>a / b\<close> on \<^verbatim>\<open>long long\<close>: truncation towards zero, no result when \<open>b = 0\<close>.\<close>

definition c_div :: "int \<Rightarrow> int \<Rightarrow> int option" where
  "c_div a b = (if b = 0 then None else Some (a sdiv b))"

subsection \<open>Python objects and NumPy type descriptors\<close>

text \<open>The arguments the Python caller passes, as far as the source inspects them.\<close>

datatype pyobj = PyNone | PyString string | PyList "pyobj list" | PyOther

text \<open>
  The \<^verbatim>\<open>rows\<close> argument as \<^verbatim>\<open>PyArray_FromAny\<close> sees it: a null pointer or \<^verbatim>\<open>None\<close>, an
  object NumPy converts to an array of \<^verbatim>\<open>npy_intp\<close>, or one it cannot convert.
\<close>

datatype rows_arg = RowsAbsent | RowsArray "int list" | RowsUnconvertible

text \<open>The file argument: a path with the outcome of \<^verbatim>\<open>fopen\<close>, a Python file, or neither.\<close>

datatype file_arg = FilePath string "cfile option" | FileObject "cfile option" | FileOther

text \<open>
  A field's \<^verbatim>\<open>PyArray_Descr\<close>: element size, type number and, for a sub-array, the
  element size and type number of its base.
\<close>

record fdescr =
  fd_elsize :: int
  fd_type_num :: int
  fd_subarray :: "(int \<times> int) option"

text \<open>
  A structured \<^verbatim>\<open>PyArray_Descr\<close>: the tuple \<^verbatim>\<open>names\<close>, the dictionary \<^verbatim>\<open>fields\<close> from a
  name to the field's descriptor and offset, and \<^verbatim>\<open>elsize\<close>.
\<close>

record descr =
  d_names :: "string list"
  d_fields :: "(string \<times> fdescr \<times> int) list"
  d_elsize :: int

subsection \<open>The platform\<close>

record platform =
  NPY_INT8 :: int
  NPY_UINT8 :: int
  NPY_INT16 :: int
  NPY_UINT16 :: int
  NPY_INT32 :: int
  NPY_UINT32 :: int
  NPY_INT64 :: int
  NPY_UINT64 :: int
  NPY_FLOAT :: int
  NPY_DOUBLE :: int
  NPY_STRING :: int
  NPY_INT8_FMT :: string
  NPY_UINT8_FMT :: string
  NPY_INT16_FMT :: string
  NPY_UINT16_FMT :: string
  NPY_INT32_FMT :: string
  NPY_UINT32_FMT :: string
  NPY_INT64_FMT :: string
  NPY_UINT64_FMT :: string
  NPY_FLOAT32 :: int
  NPY_FLOAT64 :: int
  ifdef_scan_int :: "(int \<times> string) list"
  ifdef_scan_longdouble :: "(int \<times> string) list"
  ifdef_print :: "int list"
  c_fscanf :: "string \<Rightarrow> cfile \<Rightarrow> int \<times> string \<times> cfile"
  c_fprintf :: "string \<Rightarrow> int \<Rightarrow> string \<Rightarrow> string option"

text \<open>
  \<open>ifdef_scan_int\<close> and \<open>ifdef_scan_longdouble\<close> hold the type numbers and format
  letters of the blocks of \<^verbatim>\<open>MakeScanFormats\<close> under \<^verbatim>\<open>#ifdef\<close> (\<^verbatim>\<open>NPY_INT128\<close>,
  \<^verbatim>\<open>NPY_INT256\<close>; \<^verbatim>\<open>NPY_LONGDOUBLE\<close>) that the platform compiles, in the order of the
  source, \<open>ifdef_print\<close> the type numbers of the cases of
  \<^verbatim>\<open>WriteNumberAsAscii\<close> under \<^verbatim>\<open>#ifdef\<close>. \<open>c_fscanf fmt f\<close> is one \<^verbatim>\<open>fscanf\<close> with one
  conversion: its return value, the bytes it stored and the stream afterwards.
  \<open>c_fprintf fmt t bytes\<close> is the text \<^verbatim>\<open>fprintf\<close> renders for the value of type \<open>t\<close>
  held in \<open>bytes\<close>, \<open>None\<close> when the output fails.
\<close>

subsection \<open>The state of a \<^verbatim>\<open>Records\<close> object\<close>

text \<open>
  What ends a call early.
  \<^item> \<open>Throw msg\<close>: \<^verbatim>\<open>throw "msg"\<close>, a string literal.
  \<^item> \<open>Throw_dangling\<close>: \<^verbatim>\<open>throw err.c_str()\<close> where \<^verbatim>\<open>err\<close> is a \<^verbatim>\<open>std::string\<close> local to the
    throwing block. The pointer is thrown, the string is destroyed while the stack
    unwinds, and what a handler finds behind the pointer is not defined: no text
    arrives, so the error carries none.
  \<^item> \<open>Undefined what\<close>: an operation whose behaviour C leaves undefined (a division by
    zero, an access outside a vector or a buffer, a null stream).
\<close>

datatype error = Throw string | Throw_dangling | Undefined string

datatype action = READ | WRITE

datatype file_type = BINARY_FILE | ASCII_FILE

text \<open>
  The output array's data area and the pointer \<^verbatim>\<open>mData\<close> into it, as an offset. In a
  write the area is the caller's array and \<^verbatim>\<open>mData\<close> reads from it.
\<close>

record records =
  mFptr :: "cfile option"
  mFptrIsLocal :: bool
  mMode :: string
  mDelim :: string
  mAction :: action
  mFileType :: file_type
  mReadAsWhitespace :: bool
  mReadWholeFileBinary :: bool
  mReadWholeRowBinary :: bool
  mTypeDescr :: "descr option"
  mKeepTypeDescr :: "descr option"
  mNames :: "string list"
  mOffsets :: "int list"
  mSizes :: "int list"
  mNel :: "int list"
  mTypeNums :: "int list"
  mRowSize :: int
  mNfields :: int
  mKeep :: "bool list"
  mKeepId :: "int list"
  mKeepNfields :: int
  mNrows :: int
  mNrowsToRead :: int
  mRowsToRead :: "int list option"
  mArea :: string
  mData :: int
  mScanFormats :: "string list"
  mPrintFormats :: "string list"
  mPadNull :: bool
  mIgnoreNull :: bool

subsection \<open>Opening a session\<close>

definition InitializeVariables :: records where
  "InitializeVariables =
     \<lparr>mFptr = None, mFptrIsLocal = False, mMode = [], mDelim = [],
      mAction = READ, mFileType = BINARY_FILE,
      mReadAsWhitespace = False, mReadWholeFileBinary = False, mReadWholeRowBinary = False,
      mTypeDescr = None, mKeepTypeDescr = None,
      mNames = [], mOffsets = [], mSizes = [], mNel = [], mTypeNums = [],
      mRowSize = 0, mNfields = 0, mKeep = [], mKeepId = [], mKeepNfields = 0,
      mNrows = 0, mNrowsToRead = 0, mRowsToRead = None,
      mArea = [], mData = 0, mScanFormats = [], mPrintFormats = [],
      mPadNull = False, mIgnoreNull = False\<rparr>"

definition GetFptr :: "file_arg \<Rightarrow> records \<Rightarrow> error + records" where
  "GetFptr file_obj s =
     (case file_obj of
        FilePath fstr opened \<Rightarrow>
          (case opened of
             None \<Rightarrow> Inl Throw_dangling
           | Some f \<Rightarrow> Inr (s\<lparr>mFptr := Some f, mFptrIsLocal := True\<rparr>))
      | FileObject fp \<Rightarrow>
          (case fp of
             None \<Rightarrow> Inl (Throw ''File object is invalid'')
           | Some f \<Rightarrow> Inr (s\<lparr>mFptr := Some f, mFptrIsLocal := False\<rparr>))
      | FileOther \<Rightarrow> Inl (Throw ''Input must be a file object or a string''))"

text \<open>\<^verbatim>\<open>mDelim[0]\<close>: the first byte, the terminating null byte for the empty string.\<close>

definition first_char :: "string \<Rightarrow> char" where
  "first_char s = (case s of [] \<Rightarrow> NUL | c # _ \<Rightarrow> c)"

definition ProcessDelim :: "pyobj option \<Rightarrow> records \<Rightarrow> error + records" where
  "ProcessDelim delim_obj s =
     (case
        (case delim_obj of
           None \<Rightarrow> Inr []
         | Some (PyString d) \<Rightarrow> Inr (c_str d)
         | Some _ \<Rightarrow> Inl (Throw ''delim keyword must be a string''))
      of
        Inl e \<Rightarrow> Inl e
      | Inr d \<Rightarrow> Inr (s\<lparr>mDelim := d, mReadAsWhitespace := (first_char d = SPACE)\<rparr>))"

definition SetFileType :: "records \<Rightarrow> records" where
  "SetFileType s =
     (if mDelim s = [] then s\<lparr>mFileType := BINARY_FILE\<rparr>
      else s\<lparr>mFileType := ASCII_FILE\<rparr>)"

subsection \<open>Sequencing\<close>

text \<open>A statement after a call that may throw runs only when the call returned.\<close>

definition andthen :: "error + 'a \<Rightarrow> ('a \<Rightarrow> error + 'b) \<Rightarrow> error + 'b" where
  "andthen r k = (case r of Inl e \<Rightarrow> Inl e | Inr x \<Rightarrow> k x)"

text \<open>A \<^verbatim>\<open>for\<close> loop over the indices \<open>is\<close> whose body may throw.\<close>

fun for_each :: "('i \<Rightarrow> 's \<Rightarrow> error + 's) \<Rightarrow> 'i list \<Rightarrow> 's \<Rightarrow> error + 's" where
  "for_each body [] s = Inr s"
| "for_each body (i # is) s = andthen (body i s) (for_each body is)"

text \<open>The indices \<open>0, ..., n - 1\<close> of \<^verbatim>\<open>for (long long i=0; i<n; i++)\<close>.\<close>

definition upto_n :: "int \<Rightarrow> int list" where
  "upto_n n = map int [0..<nat n]"

text \<open>\<^verbatim>\<open>v[i]\<close> on a \<^verbatim>\<open>std::vector\<close> or an array: undefined outside it.\<close>

definition at :: "'a list \<Rightarrow> int \<Rightarrow> error + 'a" where
  "at v i =
     (if 0 \<le> i \<and> i < int (length v) then Inr (v ! nat i)
      else Inl (Undefined ''index out of range''))"

text \<open>\<^verbatim>\<open>v.resize(n, x)\<close>.\<close>

definition resize :: "int \<Rightarrow> 'a \<Rightarrow> 'a list \<Rightarrow> 'a list" where
  "resize n x v = take (nat n) v @ replicate (nat n - length v) x"

text \<open>The stream of a session; the callers have checked that it is not null.\<close>

definition the_file :: "records \<Rightarrow> error + cfile" where
  "the_file s =
     (case mFptr s of None \<Rightarrow> Inl (Undefined ''null FILE'') | Some f \<Rightarrow> Inr f)"

text \<open>
  Storing the bytes \<open>bs\<close> through a pointer into the data area, at offset \<open>k\<close>. A store
  outside the area is undefined in C; so is every store when there is no area
  (\<^verbatim>\<open>mData\<close> is null until \<^verbatim>\<open>CreateOutputArray\<close> has run: the area is empty). Storing no
  byte stores nothing.
\<close>

definition poke :: "string \<Rightarrow> int \<Rightarrow> string \<Rightarrow> error + string" where
  "poke area k bs =
     (if bs = [] then Inr area
      else if 0 \<le> k \<and> nat k + length bs \<le> length area
      then Inr (take (nat k) area @ bs @ drop (nat k + length bs) area)
      else Inl (Undefined ''store outside the data area''))"

text \<open>
  Storing through \<^verbatim>\<open>buff\<close> in \<^verbatim>\<open>ReadAsciiBytes\<close> and \<^verbatim>\<open>ScanVal\<close>: \<^verbatim>\<open>buff\<close> points into the
  data area for a field that is kept, and is \<^verbatim>\<open>(char *) mBuffer.c_str()\<close> otherwise.
  \<^verbatim>\<open>mBuffer\<close> is a \<^verbatim>\<open>std::string\<close> that the source never assigns or resizes, and C++
  leaves a store through the pointer of \<^verbatim>\<open>c_str()\<close> undefined.
\<close>

definition store :: "bool \<Rightarrow> string \<Rightarrow> int \<Rightarrow> string \<Rightarrow> error + string" where
  "store keep area buff bs =
     (if keep then poke area buff bs
      else if bs = [] then Inr area
      else Inl (Undefined ''store through c_str()''))"

subsection \<open>The schema of a session\<close>

text \<open>
  \<^verbatim>\<open>CopyDescrOrderedOffsets\<close>, for one name: offset, size, element count and type number.
  A name that the dictionary does not hold keeps the initial \<open>- 1\<close> everywhere. (The
  values of NumPy's \<^verbatim>\<open>fields\<close> dictionary are tuples that \<^verbatim>\<open>PyArg_ParseTuple\<close> accepts, and
  names hold no null byte.)
\<close>

definition field_info :: "descr \<Rightarrow> string \<Rightarrow> error + (int \<times> int \<times> int \<times> int)" where
  "field_info d name =
     (case map_of (d_fields d) name of
        None \<Rightarrow> Inr (- 1, - 1, - 1, - 1)
      | Some (fd, offset) \<Rightarrow>
          (case fd_subarray fd of
             None \<Rightarrow> Inr (offset, fd_elsize fd, 1, fd_type_num fd)
           | Some (base_elsize, base_type_num) \<Rightarrow>
               (case c_div (fd_elsize fd) base_elsize of
                  None \<Rightarrow> Inl (Undefined ''division by zero'')
                | Some n \<Rightarrow> Inr (offset, fd_elsize fd, n, base_type_num))))"

fun field_infos :: "descr \<Rightarrow> string list \<Rightarrow> error + (int \<times> int \<times> int \<times> int) list" where
  "field_infos d [] = Inr []"
| "field_infos d (name # names) =
     andthen (field_info d name) (\<lambda>x.
     andthen (field_infos d names) (\<lambda>xs. Inr (x # xs)))"

definition CopyDescrOrderedNames :: "descr \<Rightarrow> string list" where
  "CopyDescrOrderedNames d = d_names d"

definition CopyFieldInfo :: "descr \<Rightarrow> records \<Rightarrow> error + records" where
  "CopyFieldInfo d s =
     (let names = CopyDescrOrderedNames d in
      andthen (field_infos d names) (\<lambda>infos.
        Inr (s\<lparr>mNames := names,
               mOffsets := map (\<lambda>(offset, sz, n, t). offset) infos,
               mSizes := map (\<lambda>(offset, sz, n, t). sz) infos,
               mNel := map (\<lambda>(offset, sz, n, t). n) infos,
               mTypeNums := map (\<lambda>(offset, sz, n, t). t) infos,
               mRowSize := d_elsize d\<rparr>)))"

text \<open>The \<^verbatim>\<open>dtype\<close> argument: a null pointer, a type descriptor, or another object.\<close>

datatype dtype_arg = DtypeNull | DtypeDescr descr | DtypeOther

definition ProcessDescr :: "dtype_arg \<Rightarrow> records \<Rightarrow> error + records" where
  "ProcessDescr dtype s =
     (case dtype of
        DtypeNull \<Rightarrow> Inl (Throw ''Input descr is NULL'')
      | DtypeOther \<Rightarrow>
          Inl (Throw (''Input descr must be a NumPy type descriptor. e.g. '' @
                      ''arr.dtype, or numpy.dtype(typelist)''))
      | DtypeDescr d \<Rightarrow>
          andthen (CopyFieldInfo d (s\<lparr>mTypeDescr := Some d\<rparr>)) (\<lambda>s'.
            Inr (s'\<lparr>mNfields := int (length (mNames s'))\<rparr>)))"

definition ProcessNrows :: "int \<Rightarrow> records \<Rightarrow> error + records" where
  "ProcessNrows nrows s =
     (if nrows < 1 then Inl (Throw ''Input nrows must be >= 1'')
      else Inr (s\<lparr>mNrows := nrows\<rparr>))"

text \<open>The constructor.\<close>

definition Records ::
  "file_arg \<Rightarrow> string \<Rightarrow> pyobj option \<Rightarrow> dtype_arg \<Rightarrow> int \<Rightarrow> error + records" where
  "Records fileobj mode delimobj dtype nrows =
     andthen (GetFptr fileobj (InitializeVariables\<lparr>mMode := c_str mode\<rparr>)) (\<lambda>s1.
     andthen (ProcessDelim delimobj s1) (\<lambda>s2.
       let s3 = SetFileType s2 in
       if first_char (mMode s3) = CHR ''r'' then
         if dtype = DtypeNull \<or> nrows = - 9999
         then Inl (Throw ''You must send the datatype and number of rows when reading'')
         else andthen (ProcessDescr dtype (s3\<lparr>mAction := READ\<rparr>)) (ProcessNrows nrows)
       else Inr (s3\<lparr>mAction := WRITE\<rparr>)))"

subsection \<open>The row selector\<close>

definition Object2IntpArray :: "rows_arg \<Rightarrow> error + int list option" where
  "Object2IntpArray obj =
     (case obj of
        RowsAbsent \<Rightarrow> Inr None
      | RowsArray arr \<Rightarrow> Inr (Some arr)
      | RowsUnconvertible \<Rightarrow>
          Inl (Throw ''Could not convert rows keyword to an array of type NPY_INTP''))"

definition ProcessRowsToRead :: "rows_arg \<Rightarrow> records \<Rightarrow> error + records" where
  "ProcessRowsToRead rows s =
     andthen (Object2IntpArray rows) (\<lambda>arr.
       case arr of
         None \<Rightarrow> Inr (s\<lparr>mRowsToRead := None, mNrowsToRead := mNrows s\<rparr>)
       | Some xs \<Rightarrow> Inr (s\<lparr>mRowsToRead := Some xs, mNrowsToRead := int (length xs)\<rparr>))"

subsection \<open>The field selector\<close>

text \<open>\<^verbatim>\<open>SequenceCheck\<close>: the length of a sequence, \<open>- 1\<close> for a null pointer or another object.\<close>

definition SequenceCheck :: "pyobj option \<Rightarrow> int" where
  "SequenceCheck obj =
     (case obj of
        Some (PyList xs) \<Rightarrow> int (length xs)
      | Some (PyString str) \<Rightarrow> int (length str)
      | _ \<Rightarrow> - 1)"

text \<open>The strings among the items of the list, as the C strings the source compares.\<close>

fun goodones :: "pyobj list \<Rightarrow> string list" where
  "goodones [] = []"
| "goodones (PyString ts # items) = c_str ts # goodones items"
| "goodones (_ # items) = goodones items"

text \<open>\<^verbatim>\<open>ListStringMatch\<close>, called with the items of a Python list.\<close>

definition ListStringMatch :: "string list \<Rightarrow> pyobj list \<Rightarrow> error + int list" where
  "ListStringMatch snames items =
     andthen
       (if SequenceCheck (Some (PyList items)) \<le> 0
        then Inr (upto_n (int (length snames)))
        else if goodones items = []
        then Inl (Throw ''None of the requested fields are in string form'')
        else Inr (filter (\<lambda>i. snames ! nat i \<in> set (goodones items))
                    (upto_n (int (length snames)))))
       (\<lambda>matchids.
          if matchids = [] then Inl (Throw ''None of the requested field names matched'')
          else Inr matchids)"

text \<open>
  \<^verbatim>\<open>ExtractSubDescr\<close> collects, for every name the dictionary holds, the name and the type
  of the field, and hands the list to NumPy's \<^verbatim>\<open>PyArray_DescrConverter\<close>. The converter
  is NumPy's: it builds the descriptor whose fields are those of the list, in the
  order of the list and packed, and refuses a list that repeats a name.
\<close>

fun pack :: "int \<Rightarrow> (string \<times> fdescr) list \<Rightarrow> (string \<times> fdescr \<times> int) list" where
  "pack offset [] = []"
| "pack offset ((name, fd) # dlist) = (name, fd, offset) # pack (offset + fd_elsize fd) dlist"

definition PyArray_DescrConverter :: "(string \<times> fdescr) list \<Rightarrow> descr option" where
  "PyArray_DescrConverter dlist =
     (if distinct (map fst dlist)
      then Some \<lparr>d_names = map fst dlist, d_fields = pack 0 dlist,
                 d_elsize = sum_list (map (\<lambda>(name, fd). fd_elsize fd) dlist)\<rparr>
      else None)"

fun sub_dlist :: "descr \<Rightarrow> string list \<Rightarrow> (string \<times> fdescr) list" where
  "sub_dlist d [] = []"
| "sub_dlist d (name # names) =
     (case map_of (d_fields d) name of
        None \<Rightarrow> sub_dlist d names
      | Some (fd, offset) \<Rightarrow> (name, fd) # sub_dlist d names)"

definition ExtractSubDescr :: "descr \<Rightarrow> string list \<Rightarrow> error + descr" where
  "ExtractSubDescr d names =
     (case PyArray_DescrConverter (sub_dlist d names) of
        None \<Rightarrow> Inl (Throw ''data type not understood'')
      | Some newdescr \<Rightarrow> Inr newdescr)"

definition SubDtype :: "descr \<Rightarrow> pyobj \<Rightarrow> error + (descr \<times> int list)" where
  "SubDtype indescr subnamesobj =
     (let names = CopyDescrOrderedNames indescr in
      andthen
        (case subnamesobj of
           PyList items \<Rightarrow> ListStringMatch names items
         | PyString str \<Rightarrow> ListStringMatch names [PyString str]
         | _ \<Rightarrow> Inl (Throw ''fields keyword must be string or list''))
        (\<lambda>matchids.
           let matchnames = map (\<lambda>i. names ! nat i) matchids in
           andthen (ExtractSubDescr indescr matchnames) (\<lambda>newdescr.
             Inr (newdescr, matchids))))"

definition ProcessFieldsToRead :: "pyobj option \<Rightarrow> records \<Rightarrow> error + records" where
  "ProcessFieldsToRead fields_obj s =
     (let s1 = s\<lparr>mKeep := resize (mNfields s) False (mKeep s)\<rparr>;
          every = Inr (s1\<lparr>mKeepNfields := mNfields s1, mKeepId := upto_n (mNfields s1),
                         mKeepTypeDescr := mTypeDescr s1\<rparr>)
      in
      andthen
        (case fields_obj of
           None \<Rightarrow> every
         | Some PyNone \<Rightarrow> every
         | Some obj \<Rightarrow>
             (case mTypeDescr s1 of
                None \<Rightarrow> Inl (Undefined ''null type descriptor'')
              | Some d \<Rightarrow>
                  andthen (SubDtype d obj) (\<lambda>(newdescr, matchids).
                    Inr (s1\<lparr>mKeepTypeDescr := Some newdescr, mKeepId := matchids,
                            mKeepNfields := int (length matchids)\<rparr>))))
        (\<lambda>s2. Inr (s2\<lparr>mKeep := fold (\<lambda>i keep. keep[nat i := True]) (mKeepId s2) (mKeep s2)\<rparr>)))"

subsection \<open>The format tables\<close>

text \<open>
  \<^verbatim>\<open>mScanFormats[t] += fmt\<close>. The type numbers are constants of NumPy that lie inside the
  table of 24 entries; outside it the C is undefined and the model leaves the table as
  it is.
\<close>

definition append_at :: "int \<times> string \<Rightarrow> string list \<Rightarrow> string list" where
  "append_at e tbl =
     (case e of (t, fmt) \<Rightarrow>
        if 0 \<le> t \<and> t < int (length tbl) then tbl[nat t := tbl ! nat t @ fmt] else tbl)"

definition fix_long_long :: "string \<Rightarrow> string" where
  "fix_long_long fmt =
     (if fmt = ''%Ld'' then ''%lld'' else if fmt = ''%Lu'' then ''%llu'' else fmt)"

definition add_delim_to :: "string \<Rightarrow> string \<Rightarrow> string" where
  "add_delim_to delim fmt = (if fmt \<noteq> ''%'' then fmt @ SPACE # delim else fmt)"

text \<open>
  The statements \<^verbatim>\<open>mScanFormats[t] += fmt\<close> of \<^verbatim>\<open>MakeScanFormats\<close>, in their order, and the
  table they and the repair of \<^verbatim>\<open>%Ld\<close> and \<^verbatim>\<open>%Lu\<close> leave.
\<close>

definition scan_entries :: "platform \<Rightarrow> (int \<times> string) list" where
  "scan_entries p =
     [(NPY_INT8 p, NPY_INT8_FMT p), (NPY_UINT8 p, NPY_UINT8_FMT p),
      (NPY_INT16 p, NPY_INT16_FMT p), (NPY_UINT16 p, NPY_UINT16_FMT p),
      (NPY_INT32 p, NPY_INT32_FMT p), (NPY_UINT32 p, NPY_UINT32_FMT p),
      (NPY_INT64 p, NPY_INT64_FMT p), (NPY_UINT64 p, NPY_UINT64_FMT p)] @
     ifdef_scan_int p @
     [(NPY_FLOAT p, ''f''), (NPY_DOUBLE p, ''lf'')] @
     ifdef_scan_longdouble p"

definition base_formats :: "platform \<Rightarrow> string list" where
  "base_formats p =
     map fix_long_long (fold append_at (scan_entries p) (replicate 24 ''%''))"

definition MakeScanFormats :: "platform \<Rightarrow> bool \<Rightarrow> records \<Rightarrow> records" where
  "MakeScanFormats p add_delim s =
     s\<lparr>mScanFormats :=
         (if \<not> mReadAsWhitespace s \<and> add_delim
          then map (add_delim_to (mDelim s)) (base_formats p)
          else base_formats p)\<rparr>"

text \<open>\<^verbatim>\<open>mPrintFormats[t] = fmt\<close>, with the same proviso as \<open>append_at\<close>.\<close>

definition assign_at :: "int \<Rightarrow> string \<Rightarrow> string list \<Rightarrow> string list" where
  "assign_at t fmt tbl = (if 0 \<le> t \<and> t < int (length tbl) then tbl[nat t := fmt] else tbl)"

definition MakePrintFormats :: "platform \<Rightarrow> records \<Rightarrow> records" where
  "MakePrintFormats p s =
     (let s1 = MakeScanFormats p False s in
      s1\<lparr>mPrintFormats :=
           assign_at (NPY_STRING p) ''%s''
             (assign_at (NPY_DOUBLE p) ''%15.8e''
                (assign_at (NPY_FLOAT p) ''%g'' (mScanFormats s1)))\<rparr>)"

subsection \<open>The read engine\<close>

definition ReadPrepare :: "platform \<Rightarrow> records \<Rightarrow> records" where
  "ReadPrepare p s =
     (if mFileType s = BINARY_FILE \<and> mNrowsToRead s = mNrows s \<and> mKeepNfields s = mNfields s
      then s\<lparr>mReadWholeFileBinary := True\<rparr>
      else if mFileType s = BINARY_FILE \<and> mKeepNfields s = mNfields s
      then s\<lparr>mReadWholeRowBinary := True\<rparr>
      else if mFileType s = ASCII_FILE
      then MakeScanFormats p True s
      else s)"

text \<open>
  In the three functions that read with \<^verbatim>\<open>fread\<close>, the bytes are stored by \<^verbatim>\<open>fread\<close>, before
  its result is compared.
\<close>

definition ReadAllAsBinary :: "records \<Rightarrow> error + records" where
  "ReadAllAsBinary s =
     andthen (the_file s) (\<lambda>f.
       case fread (mRowSize s) (mNrows s) f of (bs, n, f') \<Rightarrow>
         andthen (poke (mArea s) (mData s) bs) (\<lambda>area.
           if to_int32 n \<noteq> mNrows s
           then Inl (Throw ''Error reading entire file as binary'')
           else Inr (s\<lparr>mFptr := Some f', mArea := area\<rparr>)))"

definition ReadFieldAsBinary :: "int \<Rightarrow> records \<Rightarrow> error + records" where
  "ReadFieldAsBinary fnum s =
     andthen (the_file s) (\<lambda>f.
     andthen (at (mSizes s) fnum) (\<lambda>sz.
       case fread sz 1 f of (bs, n, f') \<Rightarrow>
         andthen (poke (mArea s) (mData s) bs) (\<lambda>area.
           if to_int32 n \<noteq> 1
           then andthen (at (mNames s) fnum) (\<lambda>name. Inl Throw_dangling)
           else Inr (s\<lparr>mFptr := Some f', mArea := area, mData := mData s + sz\<rparr>))))"

text \<open>
  The inner loop of \<^verbatim>\<open>ReadAsciiBytes\<close>: \<open>size_per_el\<close> times \<^verbatim>\<open>c=fgetc(mFptr)\<close>, the test
  \<^verbatim>\<open>c==EOF\<close> on the \<^verbatim>\<open>char\<close>, and the store \<^verbatim>\<open>*buff = c; buff++\<close>. The state of the loop is
  the stream, the data area and \<^verbatim>\<open>buff\<close>.
\<close>

definition read_char ::
  "string list \<Rightarrow> int \<Rightarrow> bool \<Rightarrow> int \<Rightarrow> cfile \<times> string \<times> int \<Rightarrow>
   error + cfile \<times> string \<times> int" where
  "read_char names fnum keep i st =
     (case st of (f, area, buff) \<Rightarrow>
        case fgetc f of (r, f') \<Rightarrow>
          let c = to_char r in
          if c = EOF
          then andthen (at names fnum) (\<lambda>name. Inl Throw_dangling)
          else andthen (store keep area buff [byte_of c]) (\<lambda>area'.
                 Inr (f', area', buff + 1)))"

text \<open>The body of the outer loop: one element, then the delimiter or end of line.\<close>

definition read_element ::
  "string list \<Rightarrow> int \<Rightarrow> bool \<Rightarrow> int \<Rightarrow> int \<Rightarrow> cfile \<times> string \<times> int \<Rightarrow>
   error + cfile \<times> string \<times> int" where
  "read_element names fnum keep size_per_el el st =
     andthen (for_each (read_char names fnum keep) (upto_n size_per_el) st)
       (\<lambda>(f, area, buff). case fgetc f of (r, f') \<Rightarrow> Inr (f', area, buff))"

text \<open>\<^verbatim>\<open>ReadAsciiBytes\<close>, with \<^verbatim>\<open>int size_per_el = mSizes[fnum]/mNel[fnum]\<close>.\<close>

definition ReadAsciiBytes :: "int \<Rightarrow> records \<Rightarrow> error + records" where
  "ReadAsciiBytes fnum s =
     andthen (the_file s) (\<lambda>f.
     andthen (at (mKeep s) fnum) (\<lambda>keep.
     andthen (at (mSizes s) fnum) (\<lambda>sz.
     andthen (at (mNel s) fnum) (\<lambda>nel.
       case c_div sz nel of
         None \<Rightarrow> Inl (Undefined ''division by zero'')
       | Some q \<Rightarrow>
           andthen (for_each (read_element (mNames s) fnum keep (to_int32 q)) (upto_n nel)
                      (f, mArea s, if keep then mData s else 0))
             (\<lambda>(f', area, buff). Inr (s\<lparr>mFptr := Some f', mArea := area\<rparr>))))))"

text \<open>
  The body of the loop of \<^verbatim>\<open>ScanVal\<close>: one \<^verbatim>\<open>fscanf\<close>, which stores what it converted
  through \<^verbatim>\<open>buff\<close>, the test of its result, and \<^verbatim>\<open>buff += mSizes[fnum]/mNel[fnum]\<close>.
\<close>

definition scan_element ::
  "platform \<Rightarrow> string list \<Rightarrow> int \<Rightarrow> string \<Rightarrow> bool \<Rightarrow> int \<Rightarrow> int \<Rightarrow>
   cfile \<times> string \<times> int \<Rightarrow> error + cfile \<times> string \<times> int" where
  "scan_element p names fnum fmt keep step el st =
     (case st of (f, area, buff) \<Rightarrow>
        case c_fscanf p fmt f of (ret, bytes, f') \<Rightarrow>
          andthen (store keep area buff bytes) (\<lambda>area'.
            if ret \<noteq> 1
            then andthen (at names fnum) (\<lambda>name. Inl Throw_dangling)
            else Inr (f', area', buff + step)))"

text \<open>\<^verbatim>\<open>ScanVal\<close>, with \<^verbatim>\<open>int type_num = mTypeNums[fnum]\<close>.\<close>

definition ScanVal :: "platform \<Rightarrow> int \<Rightarrow> records \<Rightarrow> error + records" where
  "ScanVal p fnum s =
     andthen (the_file s) (\<lambda>f.
     andthen (at (mKeep s) fnum) (\<lambda>keep.
     andthen (at (mTypeNums s) fnum) (\<lambda>type_num.
     andthen (at (mNel s) fnum) (\<lambda>nel.
       if nel \<le> 0 then Inr s
       else
         andthen (at (mScanFormats s) (to_int32 type_num)) (\<lambda>fmt.
         andthen (at (mSizes s) fnum) (\<lambda>sz.
         andthen (for_each (scan_element p (mNames s) fnum fmt keep (sz sdiv nel))
                    (upto_n nel) (f, mArea s, if keep then mData s else 0))
           (\<lambda>(f', area, buff). Inr (s\<lparr>mFptr := Some f', mArea := area\<rparr>))))))))"

definition ReadFieldAsAscii :: "platform \<Rightarrow> int \<Rightarrow> records \<Rightarrow> error + records" where
  "ReadFieldAsAscii p fnum s =
     andthen (at (mTypeNums s) fnum) (\<lambda>type_num.
     andthen
       (if type_num = NPY_STRING p then ReadAsciiBytes fnum s
        else
          andthen (ScanVal p fnum s) (\<lambda>s1.
            if mReadAsWhitespace s1
            then andthen (the_file s1) (\<lambda>f. Inr (s1\<lparr>mFptr := Some (snd (fgetc f))\<rparr>))
            else Inr s1))
       (\<lambda>s2.
          andthen (at (mKeep s2) fnum) (\<lambda>keep.
          andthen (at (mSizes s2) fnum) (\<lambda>sz.
            Inr (if keep then s2\<lparr>mData := mData s2 + sz\<rparr> else s2)))))"

definition ReadField :: "platform \<Rightarrow> int \<Rightarrow> records \<Rightarrow> error + records" where
  "ReadField p fnum s =
     (if mFileType s = BINARY_FILE then ReadFieldAsBinary fnum s
      else ReadFieldAsAscii p fnum s)"

definition SkipFieldAsBinary :: "int \<Rightarrow> records \<Rightarrow> error + records" where
  "SkipFieldAsBinary fnum s =
     andthen (the_file s) (\<lambda>f.
     andthen (at (mSizes s) fnum) (\<lambda>sz.
       case fseeko sz f of (r, f') \<Rightarrow>
         if r \<noteq> 0 then andthen (at (mNames s) fnum) (\<lambda>name. Inl Throw_dangling)
         else Inr (s\<lparr>mFptr := Some f'\<rparr>)))"

definition SkipFieldAsAscii :: "platform \<Rightarrow> int \<Rightarrow> records \<Rightarrow> error + records" where
  "SkipFieldAsAscii p fnum s = ReadFieldAsAscii p fnum s"

definition SkipField :: "platform \<Rightarrow> int \<Rightarrow> records \<Rightarrow> error + records" where
  "SkipField p fnum s =
     (if mFileType s = BINARY_FILE then SkipFieldAsBinary fnum s
      else SkipFieldAsAscii p fnum s)"

definition ReadFields :: "platform \<Rightarrow> records \<Rightarrow> error + records" where
  "ReadFields p s =
     for_each
       (\<lambda>fnum s'.
          andthen (at (mKeep s') fnum) (\<lambda>keep.
            if keep then ReadField p fnum s' else SkipField p fnum s'))
       (upto_n (mNfields s)) s"

definition ReadWholeRowBinary :: "records \<Rightarrow> error + records" where
  "ReadWholeRowBinary s =
     andthen (the_file s) (\<lambda>f.
       case fread (mRowSize s) 1 f of (bs, n, f') \<Rightarrow>
         andthen (poke (mArea s) (mData s) bs) (\<lambda>area.
           if to_int32 n \<noteq> 1 then Inl (Throw ''Failed to read row data'')
           else Inr (s\<lparr>mFptr := Some f', mArea := area,
                       mData := mData s + mRowSize s\<rparr>)))"

definition ReadRow :: "platform \<Rightarrow> records \<Rightarrow> error + records" where
  "ReadRow p s = (if mReadWholeRowBinary s then ReadWholeRowBinary s else ReadFields p s)"

text \<open>
  The loop of \<^verbatim>\<open>SkipAsciiRows\<close>: \<^verbatim>\<open>while (nlines < nskip)\<close>, one \<^verbatim>\<open>fgetc\<close> into a \<^verbatim>\<open>char\<close>
  each time round.
\<close>

function skip_lines :: "int \<Rightarrow> int \<Rightarrow> cfile \<Rightarrow> error + cfile" where
  "skip_lines nskip nlines f =
     (if nlines < nskip
      then
        if to_char (fst (fgetc f)) = EOF then Inl (Throw ''Reached EOF prematurely'')
        else skip_lines nskip
               (if to_char (fst (fgetc f)) = of_char NEWLINE then nlines + 1 else nlines)
               (snd (fgetc f))
      else Inr f)"
  by pat_completeness auto
termination
  by (relation "measure (\<lambda>(nskip, nlines, f). length (content f) - pos f)")
     (auto simp: fgetc_def to_char_def EOF_def split: if_splits)

definition SkipAsciiRows :: "int \<Rightarrow> records \<Rightarrow> error + records" where
  "SkipAsciiRows nskip s =
     (if nskip > 0
      then andthen (the_file s) (\<lambda>f.
           andthen (skip_lines nskip 0 f) (\<lambda>f'. Inr (s\<lparr>mFptr := Some f'\<rparr>)))
      else Inr s)"

definition SkipBinaryRows :: "int \<Rightarrow> records \<Rightarrow> error + records" where
  "SkipBinaryRows nskip s =
     (if nskip > 0
      then andthen (the_file s) (\<lambda>f.
             case fseeko (mRowSize s * nskip) f of (r, f') \<Rightarrow>
               if r \<noteq> 0 then Inl (Throw ''Failed to fseek'')
               else Inr (s\<lparr>mFptr := Some f'\<rparr>))
      else Inr s)"

definition SkipRows :: "int \<Rightarrow> int \<Rightarrow> records \<Rightarrow> error + records" where
  "SkipRows current_row row2read s =
     (if mFileType s = BINARY_FILE then SkipBinaryRows (row2read - current_row) s
      else if mReadAsWhitespace s then SkipAsciiRows (row2read - current_row) s
      else SkipAsciiRows (row2read - current_row) s)"

text \<open>The body of the loop of \<^verbatim>\<open>ReadRows\<close>; the state carries \<^verbatim>\<open>current_row\<close>.\<close>

definition read_one_row :: "platform \<Rightarrow> int \<Rightarrow> int \<times> records \<Rightarrow> error + int \<times> records" where
  "read_one_row p irow st =
     (case st of (current_row, s) \<Rightarrow>
        andthen
          (if mNrowsToRead s \<noteq> mNrows s
           then (case mRowsToRead s of
                   None \<Rightarrow> Inl (Undefined ''null pointer'')
                 | Some rows \<Rightarrow> at rows irow)
           else Inr irow)
          (\<lambda>row2read.
             andthen
               (if row2read > current_row
                then andthen (SkipRows current_row row2read s) (\<lambda>s'. Inr (row2read, s'))
                else Inr (current_row, s))
               (\<lambda>(current_row', s').
                  andthen (ReadRow p s') (\<lambda>s''. Inr (current_row' + 1, s'')))))"

definition ReadRows :: "platform \<Rightarrow> records \<Rightarrow> error + records" where
  "ReadRows p s =
     andthen (for_each (read_one_row p) (upto_n (mNrowsToRead s)) (0, s))
       (\<lambda>(current_row, s'). Inr s')"

definition ReadFromFile :: "platform \<Rightarrow> records \<Rightarrow> error + records" where
  "ReadFromFile p s = (if mReadWholeFileBinary s then ReadAllAsBinary s else ReadRows p s)"

text \<open>
  \<^verbatim>\<open>CreateOutputArray\<close>: NumPy's \<^verbatim>\<open>PyArray_Zeros\<close> gives \<open>mNrowsToRead\<close> zeroed rows of the
  reduced schema, and \<^verbatim>\<open>mData\<close> points to the first.
\<close>

definition CreateOutputArray :: "records \<Rightarrow> error + records" where
  "CreateOutputArray s =
     (case mKeepTypeDescr s of
        None \<Rightarrow> Inl (Undefined ''null type descriptor'')
      | Some kd \<Rightarrow>
          Inr (s\<lparr>mArea := replicate (nat (mNrowsToRead s * d_elsize kd)) NUL, mData := 0\<rparr>))"

definition Read :: "platform \<Rightarrow> rows_arg \<Rightarrow> pyobj option \<Rightarrow> records \<Rightarrow> error + records" where
  "Read p rows fields_obj s =
     (if mFptr s = None then Inl (Throw ''File is not open'')
      else if mAction s \<noteq> READ then Inl (Throw ''File is not open for reading'')
      else
        andthen (ProcessRowsToRead rows s) (\<lambda>s1.
        andthen (ProcessFieldsToRead fields_obj s1) (\<lambda>s2.
        andthen (CreateOutputArray s2) (\<lambda>s3.
          ReadFromFile p (ReadPrepare p s3)))))"

subsection \<open>The write engine\<close>

text \<open>
  The loop of \<^verbatim>\<open>WriteStringAsAscii\<close> over \<open>i = 0, ..., slen - 1\<close>, with its \<^verbatim>\<open>break\<close>; the byte
  \<^verbatim>\<open>buffer[0]\<close> of round \<open>i\<close> is the byte of the data area at \<open>buffer + i\<close>.
\<close>

fun write_chars :: "bool \<Rightarrow> bool \<Rightarrow> string \<Rightarrow> int \<Rightarrow> int list \<Rightarrow> cfile \<Rightarrow> error + cfile" where
  "write_chars ignorenull padnull area buffer [] f = Inr f"
| "write_chars ignorenull padnull area buffer (i # is) f =
     andthen (at area (buffer + i)) (\<lambda>c.
       if c = NUL \<and> ignorenull then Inr f
       else
         case fputc (if c = NUL \<and> padnull then SPACE else c) f of (res, f') \<Rightarrow>
           if res = EOF then Inl (Throw ''Error occured writing string field'')
           else write_chars ignorenull padnull area buffer is f')"

definition WriteStringAsAscii :: "int \<Rightarrow> records \<Rightarrow> error + records" where
  "WriteStringAsAscii fnum s =
     andthen (the_file s) (\<lambda>f.
     andthen (at (mSizes s) fnum) (\<lambda>sz.
     andthen (at (mNel s) fnum) (\<lambda>nel.
       case c_div sz nel of
         None \<Rightarrow> Inl (Undefined ''division by zero'')
       | Some slen \<Rightarrow>
           andthen (write_chars (mIgnoreNull s) (mPadNull s) (mArea s) (mData s)
                      (upto_n slen) f)
             (\<lambda>f'. Inr (s\<lparr>mFptr := Some f'\<rparr>)))))"

text \<open>The type numbers of the \<^verbatim>\<open>case\<close> labels of \<^verbatim>\<open>WriteNumberAsAscii\<close>.\<close>

definition printable :: "platform \<Rightarrow> int list" where
  "printable p =
     [NPY_INT8 p, NPY_UINT8 p, NPY_INT16 p, NPY_UINT16 p, NPY_INT32 p, NPY_UINT32 p,
      NPY_INT64 p, NPY_UINT64 p] @ ifdef_print p @ [NPY_FLOAT32 p, NPY_FLOAT64 p]"

definition WriteNumberAsAscii :: "platform \<Rightarrow> int \<Rightarrow> int \<Rightarrow> records \<Rightarrow> error + records" where
  "WriteNumberAsAscii p buffer type_num s =
     (if type_num \<in> set (printable p)
      then
        andthen (the_file s) (\<lambda>f.
        andthen (at (mPrintFormats s) type_num) (\<lambda>fmt.
          case c_fprintf p fmt type_num (drop (nat buffer) (mArea s)) of
            None \<Rightarrow> Inl (Throw ''Error writing data'')
          | Some txt \<Rightarrow>
              (case fputs txt f of (res, f') \<Rightarrow>
                 if res < 0 then Inl (Throw ''Error writing data'')
                 else Inr (s\<lparr>mFptr := Some f'\<rparr>))))
      else Inl Throw_dangling)"

text \<open>The first statement of \<^verbatim>\<open>WriteField\<close>: the value of one element.\<close>

definition write_value :: "platform \<Rightarrow> int \<Rightarrow> records \<Rightarrow> error + records" where
  "write_value p fnum s =
     andthen (at (mTypeNums s) fnum) (\<lambda>type_num.
       if type_num = NPY_STRING p then WriteStringAsAscii fnum s
       else WriteNumberAsAscii p (mData s) type_num s)"

text \<open>\<^verbatim>\<open>WriteField\<close>; the result of the \<^verbatim>\<open>fprintf\<close> of the delimiter is not looked at.\<close>

definition WriteField :: "platform \<Rightarrow> int \<Rightarrow> records \<Rightarrow> error + records" where
  "WriteField p fnum s =
     andthen (write_value p fnum s) (\<lambda>s1.
       if fnum < mNfields s1 - 1
       then andthen (the_file s1) (\<lambda>f. Inr (s1\<lparr>mFptr := Some (snd (fputs (mDelim s1) f))\<rparr>))
       else Inr s1)"

text \<open>The body of the loop of \<^verbatim>\<open>WriteRows\<close> over the fields: the elements of one field.\<close>

definition write_elements :: "platform \<Rightarrow> int \<Rightarrow> records \<Rightarrow> error + records" where
  "write_elements p fnum s =
     andthen (at (mNel s) fnum) (\<lambda>nel.
     andthen (at (mSizes s) fnum) (\<lambda>sz.
       case c_div sz nel of
         None \<Rightarrow> Inl (Undefined ''division by zero'')
       | Some elsize \<Rightarrow>
           for_each
             (\<lambda>el s'. andthen (WriteField p fnum s') (\<lambda>s''.
                         Inr (s''\<lparr>mData := mData s'' + elsize\<rparr>)))
             (upto_n nel) s))"

text \<open>
  The body of the loop of \<^verbatim>\<open>WriteRows\<close> over the rows: the fields, then the newline, whose
  \<^verbatim>\<open>fputc\<close> is not checked.
\<close>

definition write_row :: "platform \<Rightarrow> int \<Rightarrow> records \<Rightarrow> error + records" where
  "write_row p row s =
     andthen (for_each (write_elements p) (upto_n (mNfields s)) s) (\<lambda>s1.
     andthen (the_file s1) (\<lambda>f. Inr (s1\<lparr>mFptr := Some (snd (fputc NEWLINE f))\<rparr>)))"

definition WriteRows :: "platform \<Rightarrow> records \<Rightarrow> error + records" where
  "WriteRows p s =
     (let s0 = MakePrintFormats p s in for_each (write_row p) (upto_n (mNrows s0)) s0)"

definition WriteAllAsBinary :: "records \<Rightarrow> error + records" where
  "WriteAllAsBinary s =
     andthen (the_file s) (\<lambda>f.
       case fwrite (drop (nat (mData s)) (mArea s)) (mRowSize s) (mNrows s) f of
         (nwrite, f') \<Rightarrow>
           if nwrite < mNrows s
           then Inl Throw_dangling
           else Inr (s\<lparr>mFptr := Some f'\<rparr>))"

text \<open>
  The argument of \<^verbatim>\<open>Write\<close>: a NumPy array with its descriptor, its number of rows and
  its data, or another object.
\<close>

datatype array_arg = NdArray descr int string | NotAnArray

definition Write :: "platform \<Rightarrow> array_arg \<Rightarrow> bool \<Rightarrow> bool \<Rightarrow> records \<Rightarrow> error + records" where
  "Write p obj padnull ignorenull s =
     (if mFptr s = None then Inl (Throw ''File is not open'')
      else if mAction s \<noteq> WRITE then Inl (Throw ''File is not open for writing'')
      else
        case obj of
          NotAnArray \<Rightarrow> Inl (Throw ''Input must be a NumPy array object'')
        | NdArray d nrows data \<Rightarrow>
            andthen
              (CopyFieldInfo d (s\<lparr>mNrows := nrows, mPadNull := padnull,
                                  mIgnoreNull := ignorenull\<rparr>))
              (\<lambda>s1.
                 let s2 = s1\<lparr>mNfields := int (length (mNames s1)), mArea := data, mData := 0\<rparr>
                 in if mFileType s2 = BINARY_FILE then WriteAllAsBinary s2
                    else WriteRows p s2))"

subsection \<open>Concrete inputs\<close>

text \<open>A seekable stream over the given bytes, positioned at their start.\<close>

definition file_of :: "string \<Rightarrow> cfile" where
  "file_of bytes = \<lparr>content = bytes, pos = 0, eof = False, seekable = True, room = None\<rparr>"

text \<open>
  The type numbers and format macros of NumPy on 64-bit Linux. The two conversions
  here convert nothing: the concrete inputs below hold string fields only.
\<close>

definition example_platform :: platform where
  "example_platform =
     \<lparr>NPY_INT8 = 1, NPY_UINT8 = 2, NPY_INT16 = 3, NPY_UINT16 = 4,
      NPY_INT32 = 5, NPY_UINT32 = 6, NPY_INT64 = 7, NPY_UINT64 = 8,
      NPY_FLOAT = 11, NPY_DOUBLE = 12, NPY_STRING = 18,
      NPY_INT8_FMT = ''hhd'', NPY_UINT8_FMT = ''hhu'',
      NPY_INT16_FMT = ''hd'', NPY_UINT16_FMT = ''hu'',
      NPY_INT32_FMT = ''d'', NPY_UINT32_FMT = ''u'',
      NPY_INT64_FMT = ''ld'', NPY_UINT64_FMT = ''lu'',
      NPY_FLOAT32 = 11, NPY_FLOAT64 = 12,
      ifdef_scan_int = [], ifdef_scan_longdouble = [], ifdef_print = [13],
      c_fscanf = (\<lambda>fmt f. (0, [], f)),
      c_fprintf = (\<lambda>fmt t bytes. None)\<rparr>"

text \<open>A field of \<open>n\<close> strings of \<open>w\<close> bytes each.\<close>

definition strings_fd :: "int \<Rightarrow> int \<Rightarrow> fdescr" where
  "strings_fd n w =
     \<lparr>fd_elsize = n * w, fd_type_num = 18,
      fd_subarray = (if n = 1 then None else Some (w, 18))\<rparr>"

text \<open>The schema \<open>[a, b, c]\<close> of three one-byte strings.\<close>

definition abc_descr :: descr where
  "abc_descr =
     \<lparr>d_names = [''a'', ''b'', ''c''],
      d_fields = [(''a'', strings_fd 1 1, 0), (''b'', strings_fd 1 1, 1),
                  (''c'', strings_fd 1 1, 2)],
      d_elsize = 3\<rparr>"

text \<open>A schema of two fields of two one-byte strings each.\<close>

definition pairs_descr :: descr where
  "pairs_descr =
     \<lparr>d_names = [''x'', ''y''],
      d_fields = [(''x'', strings_fd 2 1, 0), (''y'', strings_fd 2 1, 2)],
      d_elsize = 4\<rparr>"

text \<open>A schema of one field of two strings of two bytes each.\<close>

definition pair_descr :: descr where
  "pair_descr =
     \<lparr>d_names = [''x''], d_fields = [(''x'', strings_fd 2 2, 0)], d_elsize = 4\<rparr>"

subsection \<open>Notions used in the statements\<close>

text \<open>
  Two states of one read or write call: nothing but the stream, the data area and the
  pointer \<^verbatim>\<open>mData\<close> differs.
\<close>

definition io_only :: "records \<Rightarrow> records \<Rightarrow> bool" where
  "io_only s s' = (s' = s\<lparr>mFptr := mFptr s', mArea := mArea s', mData := mData s'\<rparr>)"

text \<open>
  The text of a byte string in a delimited file, in the words of the specification: cut
  at the first null byte when nulls are ignored, else with every null byte replaced by
  a space when nulls are padded, else as it is.
\<close>

definition ascii_of_string :: "bool \<Rightarrow> bool \<Rightarrow> string \<Rightarrow> string" where
  "ascii_of_string ignorenull padnull bs =
     (if ignorenull then takeWhile (\<lambda>c. c \<noteq> NUL) bs
      else if padnull then map (\<lambda>c. if c = NUL then SPACE else c) bs
      else bs)"

text \<open>
  A write session whose data area holds the one string \<^verbatim>\<open>"ab\0\0cd"\<close> of a schema with one
  string field of six bytes.
\<close>

definition string_session :: "bool \<Rightarrow> bool \<Rightarrow> records" where
  "string_session padnull ignorenull =
     InitializeVariables
       \<lparr>mFptr := Some (file_of []), mDelim := '','', mAction := WRITE,
        mFileType := ASCII_FILE, mNames := [''s''], mOffsets := [0], mSizes := [6],
        mNel := [1], mTypeNums := [18], mRowSize := 6, mNfields := 1, mNrows := 1,
        mArea := [CHR ''a'', CHR ''b'', NUL, NUL, CHR ''c'', CHR ''d''],
        mPadNull := padnull, mIgnoreNull := ignorenull\<rparr>"


text \<open>
  Two read sessions on three rows of the schema \<open>[a, b, c]\<close>: one on a binary file, one on
  a file delimited by commas.
\<close>

definition binary_session :: records where
  "binary_session =
     projr (Records (FileObject (Some (file_of ''abcdefghi''))) ''r'' None
              (DtypeDescr abc_descr) 3)"

definition comma_session :: records where
  "comma_session =
     projr (Records (FileObject (Some (file_of ''a,b,c\<newline>d,e,f\<newline>g,h,i\<newline>''))) ''r''
              (Some (PyString '','')) (DtypeDescr abc_descr) 3)"

text \<open>
  The requests of a read, in the words of the specification. Every row is requested:
  no row subset is given, or the subset is the rows \<open>0, ..., nrows - 1\<close>. A row subset is
  valid when its indices are ascending and lie within the file. Every field is
  requested: no field subset is given, or it is an empty list, or it names every field
  of the schema.
\<close>

definition every_row_requested :: "int \<Rightarrow> rows_arg \<Rightarrow> bool" where
  "every_row_requested nrows rows =
     (case rows of
        RowsAbsent \<Rightarrow> True
      | RowsArray xs \<Rightarrow> xs = upto_n nrows
      | RowsUnconvertible \<Rightarrow> False)"

definition valid_row_subset :: "int \<Rightarrow> rows_arg \<Rightarrow> bool" where
  "valid_row_subset nrows rows =
     (case rows of
        RowsArray xs \<Rightarrow> sorted_wrt (<) xs \<and> list_all (\<lambda>r. 0 \<le> r \<and> r < nrows) xs
      | _ \<Rightarrow> True)"

definition every_field_requested :: "string list \<Rightarrow> pyobj option \<Rightarrow> bool" where
  "every_field_requested names fields_obj =
     (case fields_obj of
        None \<Rightarrow> True
      | Some PyNone \<Rightarrow> True
      | Some (PyList items) \<Rightarrow> items = [] \<or> list_all (\<lambda>name. name \<in> set (goodones items)) names
      | Some (PyString str) \<Rightarrow> list_all (\<lambda>name. name = c_str str) names
      | Some PyOther \<Rightarrow> False)"

text \<open>The steps of \<^verbatim>\<open>Read\<close> between its two checks and \<^verbatim>\<open>ReadPrepare\<close>.\<close>

definition selection :: "rows_arg \<Rightarrow> pyobj option \<Rightarrow> records \<Rightarrow> error + records" where
  "selection rows fields_obj s =
     andthen (ProcessRowsToRead rows s) (\<lambda>s1.
     andthen (ProcessFieldsToRead fields_obj s1) CreateOutputArray)"

text \<open>
  The values of a row of a delimited file. \<open>value_text p s fnum k\<close> is the text that
  \<^verbatim>\<open>WriteField\<close> writes for the value of field \<open>fnum\<close> that lies at offset \<open>k\<close> of the data
  area, before any delimiter: what its first statement leaves in an empty stream.
  \<open>element_offsets s fnums k\<close> lists, for the fields \<open>fnums\<close> of a row that starts at offset
  \<open>k\<close>, every element with its field and its offset, in the order of the row.
  \<open>row_texts\<close> are the texts of the values of the row at \<^verbatim>\<open>mData\<close>, and \<open>join\<close> puts a
  delimiter between consecutive texts.
\<close>

definition value_text :: "platform \<Rightarrow> records \<Rightarrow> int \<Rightarrow> int \<Rightarrow> string" where
  "value_text p s fnum k =
     (case write_value p fnum (s\<lparr>mFptr := Some (file_of []), mData := k\<rparr>) of
        Inl e \<Rightarrow> []
      | Inr s' \<Rightarrow> (case mFptr s' of None \<Rightarrow> [] | Some f \<Rightarrow> content f))"

fun element_offsets :: "records \<Rightarrow> int list \<Rightarrow> int \<Rightarrow> (int \<times> int) list" where
  "element_offsets s [] k = []"
| "element_offsets s (fnum # fnums) k =
     (let nel = mNel s ! nat fnum; elsize = mSizes s ! nat fnum sdiv nel in
      map (\<lambda>el. (fnum, k + el * elsize)) (upto_n nel) @
      element_offsets s fnums (k + int (nat nel) * elsize))"

definition row_texts :: "platform \<Rightarrow> records \<Rightarrow> string list" where
  "row_texts p s =
     map (\<lambda>(fnum, k). value_text p s fnum k)
       (element_offsets s (upto_n (mNfields s)) (mData s))"

fun join :: "string \<Rightarrow> string list \<Rightarrow> string" where
  "join delim [] = []"
| "join delim [t] = t"
| "join delim (t # ts) = t @ delim @ join delim ts"

text \<open>
  A schema of a field of two one-byte strings followed by a field of one, and the state
  in which \<^verbatim>\<open>Write\<close> starts the rows of a one-row array of it.
\<close>

definition mixed_descr :: descr where
  "mixed_descr =
     \<lparr>d_names = [''x'', ''y''],
      d_fields = [(''x'', strings_fd 2 1, 0), (''y'', strings_fd 1 1, 2)],
      d_elsize = 3\<rparr>"

definition mixed_session :: records where
  "mixed_session =
     MakePrintFormats example_platform
       (projr (andthen
                 (Records (FileObject (Some (file_of []))) ''w'' (Some (PyString '',''))
                    DtypeNull (- 9999))
                 (\<lambda>s. andthen
                        (CopyFieldInfo mixed_descr
                           (s\<lparr>mNrows := 1, mPadNull := False, mIgnoreNull := False\<rparr>))
                        (\<lambda>s1. Inr (s1\<lparr>mNfields := int (length (mNames s1)),
                                      mArea := ''abc'', mData := 0\<rparr>)))))"

section \<open>Properties\<close>

subsection \<open>Sequencing\<close>

lemma andthen_Inr_iff: "andthen r k = Inr y \<longleftrightarrow> (\<exists>x. r = Inr x \<and> k x = Inr y)"
  by (cases r) (simp_all add: andthen_def)

lemma andthen_Inr [simp]: "andthen (Inr x) k = k x"
  by (simp add: andthen_def)

lemma andthen_Inl [simp]: "andthen (Inl e) k = Inl e"
  by (simp add: andthen_def)

subsection \<open>The file kind\<close>

lemma GetFptr_delim:
  "GetFptr fileobj s = Inr s' \<Longrightarrow>
     mDelim s' = mDelim s \<and> mFileType s' = mFileType s \<and>
     mReadAsWhitespace s' = mReadAsWhitespace s"
  by (auto simp: GetFptr_def split: file_arg.splits option.splits)

lemma ProcessDelim_result:
  "ProcessDelim delimobj s = Inr s' \<Longrightarrow>
     (delimobj = None \<longrightarrow> mDelim s' = []) \<and>
     (\<forall>d. delimobj = Some (PyString d) \<longrightarrow> mDelim s' = c_str d) \<and>
     mReadAsWhitespace s' = (first_char (mDelim s') = SPACE)"
  by (auto simp: ProcessDelim_def split: option.splits pyobj.splits)

lemma SetFileType_result:
  "mDelim (SetFileType s) = mDelim s \<and>
   mReadAsWhitespace (SetFileType s) = mReadAsWhitespace s \<and>
   mFileType (SetFileType s) = (if mDelim s = [] then BINARY_FILE else ASCII_FILE)"
  by (simp add: SetFileType_def)

lemma CopyFieldInfo_delim:
  "CopyFieldInfo d s = Inr s' \<Longrightarrow>
     mDelim s' = mDelim s \<and> mFileType s' = mFileType s \<and>
     mReadAsWhitespace s' = mReadAsWhitespace s"
  by (auto simp: CopyFieldInfo_def Let_def andthen_Inr_iff)

lemma ProcessDescr_delim:
  "ProcessDescr dtype s = Inr s' \<Longrightarrow>
     mDelim s' = mDelim s \<and> mFileType s' = mFileType s \<and>
     mReadAsWhitespace s' = mReadAsWhitespace s"
  by (auto simp: ProcessDescr_def andthen_Inr_iff split: dtype_arg.splits
      dest!: CopyFieldInfo_delim)

lemma ProcessNrows_delim:
  "ProcessNrows nrows s = Inr s' \<Longrightarrow>
     mDelim s' = mDelim s \<and> mFileType s' = mFileType s \<and>
     mReadAsWhitespace s' = mReadAsWhitespace s"
  by (auto simp: ProcessNrows_def split: if_splits)

text \<open>What the constructor does after the delimiter is known.\<close>

lemma Records_steps:
  assumes "Records fileobj mode delimobj dtype nrows = Inr s"
  obtains s1 s2 where
    "GetFptr fileobj (InitializeVariables\<lparr>mMode := c_str mode\<rparr>) = Inr s1"
    "ProcessDelim delimobj s1 = Inr s2"
    "(if first_char (mMode (SetFileType s2)) = CHR ''r'' then
        if dtype = DtypeNull \<or> nrows = - 9999
        then Inl (Throw ''You must send the datatype and number of rows when reading'')
        else andthen (ProcessDescr dtype (SetFileType s2\<lparr>mAction := READ\<rparr>))
               (ProcessNrows nrows)
      else Inr (SetFileType s2\<lparr>mAction := WRITE\<rparr>)) = Inr s"
  using assms unfolding Records_def andthen_Inr_iff Let_def by blast

lemma Records_delim:
  assumes "Records fileobj mode delimobj dtype nrows = Inr s"
  shows "\<exists>s1 s2. ProcessDelim delimobj s1 = Inr s2 \<and>
           mDelim s = mDelim s2 \<and> mReadAsWhitespace s = mReadAsWhitespace s2 \<and>
           mFileType s = (if mDelim s2 = [] then BINARY_FILE else ASCII_FILE)"
proof -
  from assms obtain s1 s2 where
    d: "ProcessDelim delimobj s1 = Inr s2" and
    r: "(if first_char (mMode (SetFileType s2)) = CHR ''r'' then
           if dtype = DtypeNull \<or> nrows = - 9999
           then Inl (Throw ''You must send the datatype and number of rows when reading'')
           else andthen (ProcessDescr dtype (SetFileType s2\<lparr>mAction := READ\<rparr>))
                  (ProcessNrows nrows)
         else Inr (SetFileType s2\<lparr>mAction := WRITE\<rparr>)) = Inr s"
    by (rule Records_steps)
  have "mDelim s = mDelim (SetFileType s2) \<and>
        mFileType s = mFileType (SetFileType s2) \<and>
        mReadAsWhitespace s = mReadAsWhitespace (SetFileType s2)"
  proof (cases "first_char (mMode (SetFileType s2)) = CHR ''r''")
    case True
    with r obtain s4 where
      p: "ProcessDescr dtype (SetFileType s2\<lparr>mAction := READ\<rparr>) = Inr s4" and
      n: "ProcessNrows nrows s4 = Inr s"
      by (auto simp: andthen_Inr_iff split: if_splits)
    from ProcessDescr_delim [OF p] ProcessNrows_delim [OF n] show ?thesis by simp
  next
    case False
    with r show ?thesis by auto
  qed
  with d show ?thesis
    using SetFileType_result [of s2] by auto
qed

lemma first_char_SPACE: "first_char d = SPACE \<longleftrightarrow> d \<noteq> [] \<and> hd d = SPACE"
  by (cases d) (simp_all add: first_char_def NUL_def SPACE_def)

text \<open>
  Claim C8, as the code has it. The delimiter of a session is the argument as a C
  string (the bytes before its first null byte; none when the argument is absent). The
  file kind follows from it alone: Binary when it is empty, Delimited otherwise. The
  whitespace-tokenized sub-mode is selected exactly when its first character is the
  space character.
\<close>

theorem file_kind_from_delimiter:
  assumes "Records fileobj mode delimobj dtype nrows = Inr s"
  shows "(delimobj = None \<longrightarrow>
            mDelim s = [] \<and> mFileType s = BINARY_FILE \<and> \<not> mReadAsWhitespace s) \<and>
         (\<forall>d. delimobj = Some (PyString d) \<longrightarrow>
            mDelim s = c_str d \<and>
            mFileType s = (if c_str d = [] then BINARY_FILE else ASCII_FILE) \<and>
            mReadAsWhitespace s = (c_str d \<noteq> [] \<and> hd (c_str d) = SPACE))"
proof -
  from Records_delim [OF assms] obtain s1 s2 where
    d: "ProcessDelim delimobj s1 = Inr s2" and
    e: "mDelim s = mDelim s2" "mReadAsWhitespace s = mReadAsWhitespace s2"
       "mFileType s = (if mDelim s2 = [] then BINARY_FILE else ASCII_FILE)"
    by blast
  from ProcessDelim_result [OF d] e show ?thesis
    by (auto simp: first_char_SPACE)
qed

text \<open>A session opened with a delimiter of two spaces is Delimited and whitespace-tokenized.\<close>

theorem file_kind_from_delimiter_witness:
  "map_sum id (\<lambda>s. (mFileType s, mReadAsWhitespace s))
     (Records (FileObject (Some (file_of []))) ''w'' (Some (PyString [SPACE, SPACE]))
        DtypeNull (- 9999))
   = Inr (ASCII_FILE, True)"
proof -
  let ?r = "Records (FileObject (Some (file_of []))) ''w'' (Some (PyString [SPACE, SPACE]))
              DtypeNull (- 9999)"
  have r: "?r = Inr (projr ?r)"
    by code_simp
  have c: "c_str [SPACE, SPACE] = [SPACE, SPACE]"
    by code_simp
  from file_kind_from_delimiter [OF r] c
  have "mFileType (projr ?r) = ASCII_FILE \<and> mReadAsWhitespace (projr ?r)"
    by simp
  then show ?thesis
    by (subst r) simp
qed

text \<open>
  Claim C8 as stated fails on a tab: the first character of the delimiter is a
  whitespace character, the file is Delimited, and the whitespace-tokenized sub-mode is
  not selected.
\<close>

theorem tab_delimiter_counterexample:
  "map_sum id (\<lambda>s. (mFileType s, mReadAsWhitespace s))
     (Records (FileObject (Some (file_of []))) ''w'' (Some (PyString [CHR 0x09]))
        DtypeNull (- 9999))
   = Inr (ASCII_FILE, False)"
  by code_simp

subsection \<open>What a read changes\<close>

lemma io_only_refl [simp]: "io_only s s"
  by (simp add: io_only_def)

lemma io_onlyI: "s' = s\<lparr>mFptr := f, mArea := a, mData := d\<rparr> \<Longrightarrow> io_only s s'"
  by (simp add: io_only_def)

lemma io_only_trans:
  assumes "io_only s s'" "io_only s' s''"
  shows "io_only s s''"
proof -
  have 1: "s' = s\<lparr>mFptr := mFptr s', mArea := mArea s', mData := mData s'\<rparr>"
    using assms(1) by (simp add: io_only_def)
  have 2: "s'' = s'\<lparr>mFptr := mFptr s'', mArea := mArea s'', mData := mData s''\<rparr>"
    using assms(2) by (simp add: io_only_def)
  have "s'' = s\<lparr>mFptr := mFptr s'', mArea := mArea s'', mData := mData s''\<rparr>"
    by (subst 2, subst 1) simp
  then show ?thesis by (simp add: io_only_def)
qed

lemma for_each_Cons_Inr:
  "for_each body (j # js) s = Inr s'' \<longleftrightarrow>
     (\<exists>s'. body j s = Inr s' \<and> for_each body js s' = Inr s'')"
  by (simp add: andthen_Inr_iff)

lemma for_each_rel:
  assumes step: "\<And>j s s'. j \<in> set js \<Longrightarrow> body j s = Inr s' \<Longrightarrow> R s s'"
    and refl: "\<And>s. R s s" and trans: "\<And>a b c. R a b \<Longrightarrow> R b c \<Longrightarrow> R a c"
  shows "for_each body js s = Inr s' \<Longrightarrow> R s s'"
  using step
proof (induction js arbitrary: s)
  case Nil
  then show ?case by (simp add: refl)
next
  case (Cons j js)
  from Cons.prems(1) obtain s1 where a: "body j s = Inr s1" and b: "for_each body js s1 = Inr s'"
    unfolding for_each_Cons_Inr by blast
  have "R s s1"
    by (rule Cons.prems(2) [OF _ a]) simp
  moreover have "R s1 s'"
  proof (rule Cons.IH [OF b])
    fix k t t'
    assume "k \<in> set js" "body k t = Inr t'"
    then show "R t t'"
      using Cons.prems(2) [of k t t'] by simp
  qed
  ultimately show ?case by (rule trans)
qed

lemma for_each_append:
  "for_each body (xs @ ys) s = andthen (for_each body xs s) (for_each body ys)"
  by (induction xs arbitrary: s) (simp_all add: andthen_def split: sum.splits)

lemma ReadWholeRowBinary_io: "ReadWholeRowBinary s = Inr s' \<Longrightarrow> io_only s s'"
  by (auto simp: ReadWholeRowBinary_def andthen_Inr_iff io_only_def case_prod_beta split: if_splits)

lemma ReadFieldAsBinary_io: "ReadFieldAsBinary fnum s = Inr s' \<Longrightarrow> io_only s s'"
  by (auto simp: ReadFieldAsBinary_def andthen_Inr_iff io_only_def case_prod_beta split: if_splits)

lemma SkipFieldAsBinary_io: "SkipFieldAsBinary fnum s = Inr s' \<Longrightarrow> io_only s s'"
  by (auto simp: SkipFieldAsBinary_def andthen_Inr_iff io_only_def case_prod_beta split: if_splits)

lemma ReadAsciiBytes_io:
  assumes "ReadAsciiBytes fnum s = Inr s'"
  shows "io_only s s'"
proof -
  from assms obtain f keep sz nel where
    r: "(case c_div sz nel of
           None \<Rightarrow> Inl (Undefined ''division by zero'')
         | Some q \<Rightarrow>
             andthen (for_each (read_element (mNames s) fnum keep (to_int32 q)) (upto_n nel)
                        (f, mArea s, if keep then mData s else 0))
               (\<lambda>(f', area, buff). Inr (s\<lparr>mFptr := Some f', mArea := area\<rparr>))) = Inr s'"
    unfolding ReadAsciiBytes_def andthen_Inr_iff by blast
  then obtain x where "s' = s\<lparr>mFptr := Some (fst x), mArea := fst (snd x)\<rparr>"
    by (auto simp: andthen_Inr_iff case_prod_beta split: option.splits)
  then show ?thesis
    by (simp add: io_only_def)
qed

lemma ScanVal_io:
  assumes "ScanVal p fnum s = Inr s'"
  shows "io_only s s'"
proof -
  from assms obtain f keep type_num nel where
    r: "(if nel \<le> 0 then Inr s
         else
           andthen (at (mScanFormats s) (to_int32 type_num)) (\<lambda>fmt.
           andthen (at (mSizes s) fnum) (\<lambda>sz.
           andthen (for_each (scan_element p (mNames s) fnum fmt keep (sz sdiv nel))
                      (upto_n nel) (f, mArea s, if keep then mData s else 0))
             (\<lambda>(f', area, buff). Inr (s\<lparr>mFptr := Some f', mArea := area\<rparr>))))) = Inr s'"
    unfolding ScanVal_def andthen_Inr_iff by blast
  then have "s' = s \<or> (\<exists>x. s' = s\<lparr>mFptr := Some (fst x), mArea := fst (snd x)\<rparr>)"
    by (auto simp: andthen_Inr_iff case_prod_beta split: if_splits)
  then show ?thesis
    by (auto simp: io_only_def)
qed

lemma ReadFieldAsAscii_io:
  assumes "ReadFieldAsAscii p fnum s = Inr s'"
  shows "io_only s s'"
proof -
  from assms obtain t s2 where
    a: "(if t = NPY_STRING p then ReadAsciiBytes fnum s
         else andthen (ScanVal p fnum s) (\<lambda>s1.
                if mReadAsWhitespace s1
                then andthen (the_file s1) (\<lambda>f. Inr (s1\<lparr>mFptr := Some (snd (fgetc f))\<rparr>))
                else Inr s1)) = Inr s2" and
    b: "andthen (at (mKeep s2) fnum) (\<lambda>keep.
          andthen (at (mSizes s2) fnum) (\<lambda>sz.
            Inr (if keep then s2\<lparr>mData := mData s2 + sz\<rparr> else s2))) = Inr s'"
    unfolding ReadFieldAsAscii_def andthen_Inr_iff by blast
  have "io_only s s2"
  proof (cases "t = NPY_STRING p")
    case True
    with a show ?thesis by (simp add: ReadAsciiBytes_io)
  next
    case False
    with a obtain s1 where s1: "ScanVal p fnum s = Inr s1" and
      c: "(if mReadAsWhitespace s1
           then andthen (the_file s1) (\<lambda>f. Inr (s1\<lparr>mFptr := Some (snd (fgetc f))\<rparr>))
           else Inr s1) = Inr s2"
      by (auto simp: andthen_Inr_iff)
    from c have "io_only s1 s2"
      by (auto simp: andthen_Inr_iff io_only_def split: if_splits)
    with ScanVal_io [OF s1] show ?thesis by (rule io_only_trans)
  qed
  moreover from b obtain keep sz where
    "s' = (if keep then s2\<lparr>mData := mData s2 + sz\<rparr> else s2)"
    by (auto simp: andthen_Inr_iff)
  then have "io_only s2 s'"
    by (cases keep) (simp_all add: io_only_def)
  ultimately show ?thesis by (rule io_only_trans)
qed

lemma ReadField_io: "ReadField p fnum s = Inr s' \<Longrightarrow> io_only s s'"
  by (auto simp: ReadField_def ReadFieldAsBinary_io ReadFieldAsAscii_io split: if_splits)

lemma SkipField_io: "SkipField p fnum s = Inr s' \<Longrightarrow> io_only s s'"
  by (auto simp: SkipField_def SkipFieldAsAscii_def SkipFieldAsBinary_io ReadFieldAsAscii_io
      split: if_splits)

lemma ReadFields_io:
  assumes "ReadFields p s = Inr s'"
  shows "io_only s s'"
proof (rule for_each_rel [where R = io_only, OF _ _ _ assms [unfolded ReadFields_def]])
  fix fnum t t'
  assume "andthen (at (mKeep t) fnum) (\<lambda>keep.
            if keep then ReadField p fnum t else SkipField p fnum t) = Inr t'"
  then show "io_only t t'"
    by (auto simp: andthen_Inr_iff ReadField_io SkipField_io split: if_splits)
qed (auto intro: io_only_trans)

lemma ReadRow_io: "ReadRow p s = Inr s' \<Longrightarrow> io_only s s'"
  by (auto simp: ReadRow_def ReadWholeRowBinary_io ReadFields_io split: if_splits)

subsection \<open>The row selector\<close>

lemma io_only_counts:
  "io_only s s' \<Longrightarrow> mNrowsToRead s' = mNrowsToRead s \<and> mNrows s' = mNrows s"
  unfolding io_only_def by (erule ssubst) simp

lemma read_one_row_all:
  "mNrowsToRead s = mNrows s \<Longrightarrow>
     read_one_row p irow (irow, s) = andthen (ReadRow p s) (\<lambda>s'. Inr (irow + 1, s'))"
  by (simp add: read_one_row_def)

lemma rows_loop_all:
  assumes "mNrowsToRead s = mNrows s"
  shows "for_each (read_one_row p) (map int [k..<n]) (int k, s) =
           andthen (for_each (\<lambda>irow. ReadRow p) (map int [k..<n]) s)
             (\<lambda>s'. Inr (int (max k n), s'))"
  using assms
proof (induction "n - k" arbitrary: k s)
  case 0
  then show ?case by (simp add: max_def)
next
  case (Suc m)
  then have kn: "k < n" and m: "m = n - Suc k" by simp_all
  have l: "[k..<n] = k # [Suc k..<n]"
    using kn by (simp add: upt_conv_Cons)
  show ?case
  proof (cases "ReadRow p s")
    case (Inl e)
    then show ?thesis
      by (simp add: l read_one_row_all [OF Suc.prems])
  next
    case (Inr s1)
    from ReadRow_io [OF Inr] io_only_counts Suc.prems
    have "mNrowsToRead s1 = mNrows s1" by metis
    from Suc.hyps(1) [OF m this] Inr kn show ?thesis
      by (simp add: l read_one_row_all [OF Suc.prems] max_def add.commute)
  qed
qed

lemma ReadRows_all:
  assumes "mNrowsToRead s = mNrows s"
  shows "ReadRows p s = for_each (\<lambda>irow. ReadRow p) (upto_n (mNrows s)) s"
proof -
  have "for_each (read_one_row p) (upto_n (mNrows s)) (0, s) =
          andthen (for_each (\<lambda>irow. ReadRow p) (upto_n (mNrows s)) s)
            (\<lambda>s'. Inr (int (max 0 (nat (mNrows s))), s'))"
    using rows_loop_all [OF assms, of p 0 "nat (mNrows s)"] by (simp add: upto_n_def)
  then show ?thesis
    by (simp add: ReadRows_def assms andthen_def split: sum.splits)
qed

text \<open>
  Claim C3, as the code has it. An absent row subset (a null pointer or \<^verbatim>\<open>None\<close>) selects
  all rows: the count is the total, and the rows \<open>0, ..., mNrows - 1\<close> are read one after
  the other with no skip. A row subset that is present gives its own length as the
  count; an empty one selects no row, and nothing is read.
\<close>

theorem absent_rows_read_all:
  "ProcessRowsToRead RowsAbsent s = Inr (s\<lparr>mRowsToRead := None, mNrowsToRead := mNrows s\<rparr>) \<and>
   ReadRows p (s\<lparr>mRowsToRead := None, mNrowsToRead := mNrows s\<rparr>) =
     for_each (\<lambda>irow. ReadRow p) (upto_n (mNrows s))
       (s\<lparr>mRowsToRead := None, mNrowsToRead := mNrows s\<rparr>) \<and>
   ProcessRowsToRead (RowsArray xs) s =
     Inr (s\<lparr>mRowsToRead := Some xs, mNrowsToRead := int (length xs)\<rparr>) \<and>
   ReadRows p (s\<lparr>mRowsToRead := Some [], mNrowsToRead := 0\<rparr>) =
     Inr (s\<lparr>mRowsToRead := Some [], mNrowsToRead := 0\<rparr>)"
proof -
  have "ReadRows p (s\<lparr>mRowsToRead := None, mNrowsToRead := mNrows s\<rparr>) =
     for_each (\<lambda>irow. ReadRow p) (upto_n (mNrows s))
       (s\<lparr>mRowsToRead := None, mNrowsToRead := mNrows s\<rparr>)"
    using ReadRows_all [of "s\<lparr>mRowsToRead := None, mNrowsToRead := mNrows s\<rparr>" p] by simp
  then show ?thesis
    by (simp add: ProcessRowsToRead_def Object2IntpArray_def ReadRows_def upto_n_def)
qed

text \<open>
  Claim C3 as stated fails: on a file of three rows, a read with an empty row subset
  reads zero rows and leaves the stream where it was.
\<close>

theorem empty_rows_counterexample:
  "map_sum id (\<lambda>s. (mNrows s, mNrowsToRead s, mArea s, map_option pos (mFptr s)))
     (andthen
        (Records (FileObject (Some (file_of ''abcdefghi''))) ''r'' None (DtypeDescr abc_descr) 3)
        (Read example_platform (RowsArray []) None))
   = Inr (3, 0, [], Some 0)"
  by code_simp

text \<open>The same file read with no row subset: all three rows.\<close>

lemma absent_rows_example:
  "map_sum id (\<lambda>s. (mNrows s, mNrowsToRead s, mArea s, map_option pos (mFptr s)))
     (andthen
        (Records (FileObject (Some (file_of ''abcdefghi''))) ''r'' None (DtypeDescr abc_descr) 3)
        (Read example_platform RowsAbsent None))
   = Inr (3, 3, ''abcdefghi'', Some 9)"
  by code_simp

subsection \<open>Strings in a delimited file\<close>

lemma fputc_unlimited:
  "room f = None \<Longrightarrow> fputc c f = (of_char c, f\<lparr>content := content f @ [c]\<rparr>)"
  by (simp add: fputc_def)

lemma of_char_int_range: "0 \<le> (of_char c :: int) \<and> (of_char c :: int) < 256"
proof -
  have "(of_char c :: int) = int (of_char c)"
    by (simp add: of_nat_of_char)
  moreover have "(of_char c :: nat) < 256"
    by simp
  ultimately show ?thesis
    by simp
qed

lemma of_char_not_EOF: "(of_char c :: int) \<noteq> EOF"
  using of_char_int_range [of c] by (simp add: EOF_def)

lemma write_chars_text:
  assumes "room f = None"
    and "\<forall>i \<in> set js. 0 \<le> buffer + i \<and> buffer + i < int (length area)"
  shows "write_chars ign pad area buffer js f =
           Inr (f\<lparr>content := content f @
                    ascii_of_string ign pad (map (\<lambda>i. area ! nat (buffer + i)) js)\<rparr>)"
  using assms
proof (induction js arbitrary: f)
  case Nil
  then show ?case by (simp add: ascii_of_string_def)
next
  case (Cons j js)
  let ?c = "area ! nat (buffer + j)"
  have a: "at area (buffer + j) = Inr ?c"
    using Cons.prems(2) by (simp add: at_def)
  show ?case
  proof (cases "?c = NUL \<and> ign")
    case True
    then show ?thesis
      by (simp add: a ascii_of_string_def)
  next
    case False
    let ?d = "if ?c = NUL \<and> pad then SPACE else ?c"
    let ?f = "f\<lparr>content := content f @ [?d]\<rparr>"
    have r: "room ?f = None" using Cons.prems(1) by simp
    have b: "\<forall>i \<in> set js. 0 \<le> buffer + i \<and> buffer + i < int (length area)"
      using Cons.prems(2) by simp
    have "write_chars ign pad area buffer (j # js) f = write_chars ign pad area buffer js ?f"
      using False by (auto simp: a fputc_unlimited [OF Cons.prems(1)] of_char_not_EOF)
    also have "\<dots> = Inr (?f\<lparr>content := content ?f @
                    ascii_of_string ign pad (map (\<lambda>i. area ! nat (buffer + i)) js)\<rparr>)"
      by (rule Cons.IH [OF r b])
    finally show ?thesis
      using False by (auto simp: ascii_of_string_def)
  qed
qed

lemma peek_range:
  assumes "0 \<le> buffer" "buffer + slen \<le> int (length area)"
  shows "map (\<lambda>i. area ! nat (buffer + i)) (upto_n slen) = take (nat slen) (drop (nat buffer) area)"
proof (rule nth_equalityI)
  show "length (map (\<lambda>i. area ! nat (buffer + i)) (upto_n slen)) =
        length (take (nat slen) (drop (nat buffer) area))"
    using assms by (simp add: upto_n_def)
next
  fix k
  assume "k < length (map (\<lambda>i. area ! nat (buffer + i)) (upto_n slen))"
  then have k: "k < nat slen" by (simp add: upto_n_def)
  then show "map (\<lambda>i. area ! nat (buffer + i)) (upto_n slen) ! k =
             take (nat slen) (drop (nat buffer) area) ! k"
    using assms by (simp add: upto_n_def nat_add_distrib)
qed

text \<open>
  Claim C6. A byte-string element written in ASCII mode, on a stream that takes every
  byte: what reaches the file is the element cut at its first null byte when
  ignore-nulls-after-first is enabled (nothing after the null is written), otherwise the
  element with each null byte written as a space when pad-nulls is enabled, otherwise
  the element as it is, null bytes included.
\<close>

theorem string_null_handling:
  assumes "the_file s = Inr f" and "room f = None"
    and "at (mSizes s) fnum = Inr sz" and "at (mNel s) fnum = Inr nel" and "nel \<noteq> 0"
    and "0 \<le> mData s" and "mData s + sz sdiv nel \<le> int (length (mArea s))"
  shows "WriteStringAsAscii fnum s =
           Inr (s\<lparr>mFptr := Some (f\<lparr>content := content f @
                  ascii_of_string (mIgnoreNull s) (mPadNull s)
                    (take (nat (sz sdiv nel)) (drop (nat (mData s)) (mArea s)))\<rparr>)\<rparr>)"
proof -
  have "\<forall>i \<in> set (upto_n (sz sdiv nel)).
          0 \<le> mData s + i \<and> mData s + i < int (length (mArea s))"
    using assms(6,7) by (auto simp: upto_n_def)
  from write_chars_text [OF assms(2) this]
  show ?thesis
    by (simp add: WriteStringAsAscii_def assms(1,3,4,5) c_div_def peek_range [OF assms(6,7)])
qed

text \<open>
  The string \<^verbatim>\<open>"ab\0\0cd"\<close>: with pad-nulls \<^verbatim>\<open>"ab  cd"\<close>, with ignore-nulls-after-first
  \<^verbatim>\<open>"ab"\<close>, with neither the six bytes as they are.
\<close>

theorem string_null_handling_witness:
  "map_sum id (\<lambda>s. map_option content (mFptr s))
     (WriteStringAsAscii 0 (string_session True False)) = Inr (Some ''ab  cd'') \<and>
   map_sum id (\<lambda>s. map_option content (mFptr s))
     (WriteStringAsAscii 0 (string_session True True)) = Inr (Some ''ab'') \<and>
   map_sum id (\<lambda>s. map_option content (mFptr s))
     (WriteStringAsAscii 0 (string_session False False)) =
       Inr (Some [CHR ''a'', CHR ''b'', NUL, NUL, CHR ''c'', CHR ''d''])"
proof -
  have h: "the_file (string_session pad ign) = Inr (file_of [])" "room (file_of []) = None"
    "at (mSizes (string_session pad ign)) 0 = Inr 6"
    "at (mNel (string_session pad ign)) 0 = Inr 1" "(1::int) \<noteq> 0"
    "0 \<le> mData (string_session pad ign)"
    "mData (string_session pad ign) + 6 sdiv 1 \<le> int (length (mArea (string_session pad ign)))"
    for pad ign
    by (simp_all add: string_session_def InitializeVariables_def the_file_def file_of_def at_def)
  have e: "ascii_of_string (mIgnoreNull (string_session pad ign)) (mPadNull (string_session pad ign))
            (take (nat (6 sdiv 1)) (drop (nat (mData (string_session pad ign)))
               (mArea (string_session pad ign)))) =
           ascii_of_string ign pad [CHR ''a'', CHR ''b'', NUL, NUL, CHR ''c'', CHR ''d'']"
    for pad ign
    by (simp add: string_session_def InitializeVariables_def)
  show ?thesis
    unfolding string_null_handling [OF h] e
    by (simp add: ascii_of_string_def NUL_def SPACE_def file_of_def)
qed

text \<open>The same string written through \<^verbatim>\<open>Write\<close>, as a file of one row.\<close>

lemma write_nulls_example:
  "map_sum id (\<lambda>s. map_option content (mFptr s))
     (andthen (Records (FileObject (Some (file_of []))) ''w'' (Some (PyString '','')) DtypeNull (- 9999))
        (Write example_platform
           (NdArray \<lparr>d_names = [''s''], d_fields = [(''s'', strings_fd 1 6, 0)], d_elsize = 6\<rparr> 1
              [CHR ''a'', CHR ''b'', NUL, NUL, CHR ''c'', CHR ''d'']) True False))
   = Inr (Some (''ab  cd'' @ [NEWLINE]))"
  by code_simp

subsection \<open>The scan formats\<close>

lemma length_fold_append_at [simp]: "length (fold append_at es tbl) = length tbl"
  by (induction es arbitrary: tbl) (auto simp: append_at_def)

lemma fold_append_at_nth:
  "i < length tbl \<Longrightarrow>
     fold append_at es tbl ! i =
       tbl ! i @ concat (map snd (filter (\<lambda>e. 0 \<le> fst e \<and> nat (fst e) = i) es))"
proof (induction es arbitrary: tbl)
  case Nil
  then show ?case by simp
next
  case (Cons e es)
  obtain t fmt where e: "e = (t, fmt)" by (cases e)
  have l: "i < length (append_at e tbl)"
    using Cons.prems by (simp add: append_at_def e)
  have "append_at e tbl ! i = tbl ! i @ (if 0 \<le> t \<and> nat t = i then fmt else [])"
    using Cons.prems by (auto simp: append_at_def e nth_list_update)
  with Cons.IH [OF l] show ?case
    by (simp add: e)
qed

lemma length_base_formats [simp]: "length (base_formats p) = 24"
  by (simp add: base_formats_def)

lemma base_formats_nth:
  assumes "0 \<le> t" "t < 24"
  shows "base_formats p ! nat t =
           fix_long_long (''%'' @ concat (map snd (filter (\<lambda>e. 0 \<le> fst e \<and> nat (fst e) = nat t)
                                                   (scan_entries p))))"
  using assms by (simp add: base_formats_def fold_append_at_nth)

lemma fix_long_long_percent: "fix_long_long fmt = ''%'' \<longleftrightarrow> fmt = ''%''"
  by (simp add: fix_long_long_def)

lemma base_formats_entry:
  assumes "(t, fmt) \<in> set (scan_entries p)" "0 \<le> t" "t < 24" "fmt \<noteq> []"
  shows "base_formats p ! nat t \<noteq> ''%''"
proof -
  have "(t, fmt) \<in> set (filter (\<lambda>e. 0 \<le> fst e \<and> nat (fst e) = nat t) (scan_entries p))"
    using assms(1,2) by simp
  then have "fmt \<in> set (map snd (filter (\<lambda>e. 0 \<le> fst e \<and> nat (fst e) = nat t) (scan_entries p)))"
    by force
  with assms(4)
  have "\<exists>x \<in> set (map snd (filter (\<lambda>e. 0 \<le> fst e \<and> nat (fst e) = nat t)
                                (scan_entries p))). x \<noteq> []"
    by blast
  then
  have "concat (map snd (filter (\<lambda>e. 0 \<le> fst e \<and> nat (fst e) = nat t) (scan_entries p))) \<noteq> []"
    unfolding concat_eq_Nil_conv by blast
  then show ?thesis
    by (simp add: base_formats_nth [OF assms(2,3)] fix_long_long_percent)
qed

lemma base_formats_no_entry:
  assumes "t \<notin> fst ` set (scan_entries p)" "0 \<le> t" "t < 24"
  shows "base_formats p ! nat t = ''%''"
proof -
  have "filter (\<lambda>e. 0 \<le> fst e \<and> nat (fst e) = nat t) (scan_entries p) = []"
  proof -
    have "\<not> (0 \<le> fst e \<and> nat (fst e) = nat t)" if "e \<in> set (scan_entries p)" for e
    proof
      assume "0 \<le> fst e \<and> nat (fst e) = nat t"
      with assms(2) have "fst e = t" by arith
      with that assms(1) show False by force
    qed
    then show ?thesis
      by (simp add: filter_empty_conv)
  qed
  then show ?thesis
    by (simp add: base_formats_nth [OF assms(2,3)] fix_long_long_def)
qed

text \<open>
  Claim C5, as the code has it. When the delimiter does not select the
  whitespace-tokenized sub-mode, the scan-format table built for ASCII reading has, for
  every type that \<^verbatim>\<open>MakeScanFormats\<close> gives a format letter, the format of the table built
  without delimiter followed by a blank and the delimiter string: after the value,
  \<^verbatim>\<open>fscanf\<close> skips white space and then meets the delimiter. Every other entry, the one of
  the string type among them when no format letter is appended to it, stays the bare
  \<^verbatim>\<open>%\<close> and receives no suffix.
\<close>

theorem scan_formats_delimiter:
  assumes "\<not> mReadAsWhitespace s"
  shows "length (mScanFormats (MakeScanFormats p True s)) = 24 \<and>
         (\<forall>(t, fmt) \<in> set (scan_entries p). 0 \<le> t \<and> t < 24 \<and> fmt \<noteq> [] \<longrightarrow>
            mScanFormats (MakeScanFormats p False s) ! nat t \<noteq> ''%'' \<and>
            mScanFormats (MakeScanFormats p True s) ! nat t =
              mScanFormats (MakeScanFormats p False s) ! nat t @ SPACE # mDelim s) \<and>
         (\<forall>t. 0 \<le> t \<and> t < 24 \<and> t \<notin> fst ` set (scan_entries p) \<longrightarrow>
            mScanFormats (MakeScanFormats p True s) ! nat t = ''%'')"
proof (intro conjI ballI allI impI)
  show "length (mScanFormats (MakeScanFormats p True s)) = 24"
    by (simp add: MakeScanFormats_def)
next
  fix e
  assume e: "e \<in> set (scan_entries p)"
  show "case e of (t, fmt) \<Rightarrow> 0 \<le> t \<and> t < 24 \<and> fmt \<noteq> [] \<longrightarrow>
            mScanFormats (MakeScanFormats p False s) ! nat t \<noteq> ''%'' \<and>
            mScanFormats (MakeScanFormats p True s) ! nat t =
              mScanFormats (MakeScanFormats p False s) ! nat t @ SPACE # mDelim s"
  proof (cases e)
    case (Pair t fmt)
    show ?thesis
    proof (simp only: Pair prod.case, intro impI, elim conjE)
      assume h: "0 \<le> t" "t < 24" "fmt \<noteq> []"
      from base_formats_entry [OF e [unfolded Pair] h]
      show "mScanFormats (MakeScanFormats p False s) ! nat t \<noteq> ''%'' \<and>
            mScanFormats (MakeScanFormats p True s) ! nat t =
              mScanFormats (MakeScanFormats p False s) ! nat t @ SPACE # mDelim s"
        using assms h by (simp add: MakeScanFormats_def add_delim_to_def)
    qed
  qed
next
  fix t
  assume "0 \<le> t \<and> t < 24 \<and> t \<notin> fst ` set (scan_entries p)"
  then have h: "t \<notin> fst ` set (scan_entries p)" "0 \<le> t" "t < 24"
    by simp_all
  then have "nat t < length (base_formats p)"
    by simp
  then show "mScanFormats (MakeScanFormats p True s) ! nat t = ''%''"
    using assms by (simp add: MakeScanFormats_def add_delim_to_def base_formats_no_entry [OF h])
qed

text \<open>With the delimiter \<^verbatim>\<open>,\<close>: the entry of the 32-bit integers and the entry of the strings.\<close>

theorem scan_formats_delimiter_witness:
  "mScanFormats (MakeScanFormats example_platform True (InitializeVariables\<lparr>mDelim := '',''\<rparr>)) ! 5
     = ''%d ,'' \<and>
   mScanFormats (MakeScanFormats example_platform True (InitializeVariables\<lparr>mDelim := '',''\<rparr>)) ! 18
     = ''%''"
proof -
  let ?s = "InitializeVariables\<lparr>mDelim := '',''\<rparr>"
  have w: "\<not> mReadAsWhitespace ?s"
    by (simp add: InitializeVariables_def)
  have e: "(5, ''d'') \<in> set (scan_entries example_platform)"
    by (simp add: scan_entries_def example_platform_def)
  have n: "18 \<notin> fst ` set (scan_entries example_platform)"
    by (simp add: scan_entries_def example_platform_def)
  have b: "mScanFormats (MakeScanFormats example_platform False ?s) ! 5 = ''%d''"
    by code_simp
  note T = scan_formats_delimiter [OF w, of example_platform]
  have A: "mScanFormats (MakeScanFormats example_platform True ?s) ! nat 5 =
           mScanFormats (MakeScanFormats example_platform False ?s) ! nat 5 @ SPACE # mDelim ?s"
    using bspec [OF conjunct1 [OF conjunct2 [OF T]] e] by simp
  have B: "mScanFormats (MakeScanFormats example_platform True ?s) ! nat 18 = ''%''"
    using spec [OF conjunct2 [OF conjunct2 [OF T]], of 18] n by simp
  from A B b show ?thesis
    by (simp add: SPACE_def)
qed

text \<open>
  Claim C5 as stated fails: the delimiter does not follow the value immediately. With
  the delimiter \<^verbatim>\<open>,\<close> the scan format of a 32-bit float is \<^verbatim>\<open>%f ,\<close> and not \<^verbatim>\<open>%f,\<close>.
\<close>

theorem scan_format_blank_counterexample:
  "mScanFormats (MakeScanFormats example_platform True (InitializeVariables\<lparr>mDelim := '',''\<rparr>))
     ! nat (NPY_FLOAT example_platform) = ''%f ,'' \<and>
   mScanFormats (MakeScanFormats example_platform False (InitializeVariables\<lparr>mDelim := '',''\<rparr>))
     ! nat (NPY_FLOAT example_platform) @ '','' = ''%f,''"
  by code_simp

subsection \<open>The field selector\<close>

lemma map_nth_filter_upto:
  "map (\<lambda>i. xs ! nat i) (filter (\<lambda>i. P (xs ! nat i)) (upto_n (int (length xs)))) = filter P xs"
proof -
  have "filter P xs = filter P (map (nth xs) [0..<length xs])"
    by (simp add: map_nth)
  also have "\<dots> = map (nth xs) (filter (P \<circ> nth xs) [0..<length xs])"
    by (simp only: filter_map)
  finally show ?thesis
    by (simp add: upto_n_def filter_map comp_def)
qed













subsection \<open>Skipping rows\<close>

declare skip_lines.simps [simp del]

lemma to_char_byte:
  assumes "0 \<le> r" "r < 256"
  shows "to_char r = (if r < 128 then r else r - 256)"
proof (cases "r < 128")
  case True
  with assms have "(r + 128) mod 256 = r + 128"
    by (intro mod_pos_pos_trivial) simp_all
  with True show ?thesis
    by (simp add: to_char_def)
next
  case False
  have "r + 128 = r - 128 + 256"
    by simp
  then have "(r + 128) mod 256 = (r - 128 + 256) mod 256"
    by (rule arg_cong)
  also have "\<dots> = (r - 128) mod 256"
    by (simp only: mod_add_self2)
  also have "\<dots> = r - 128"
    using assms False by (intro mod_pos_pos_trivial) simp_all
  finally show ?thesis
    using False by (simp add: to_char_def)
qed

lemma to_char_EOF: "to_char (of_char c) = EOF \<longleftrightarrow> c = CHR 0xFF"
proof -
  have "to_char (of_char c) = EOF \<longleftrightarrow> (of_char c :: int) = 255"
    using of_char_int_range [of c] by (auto simp: to_char_byte EOF_def)
  also have "\<dots> \<longleftrightarrow> (of_char c :: int) = of_char (CHR 0xFF)"
    by simp
  also have "\<dots> \<longleftrightarrow> c = CHR 0xFF"
    by (simp only: of_char_eq_iff)
  finally show ?thesis .
qed

lemma to_char_NEWLINE: "to_char (of_char c) = of_char NEWLINE \<longleftrightarrow> c = NEWLINE"
proof -
  have "to_char (of_char c) = of_char NEWLINE \<longleftrightarrow> (of_char c :: int) = 10"
    using of_char_int_range [of c] by (auto simp: to_char_byte NEWLINE_def)
  also have "\<dots> \<longleftrightarrow> (of_char c :: int) = of_char NEWLINE"
    by (simp add: NEWLINE_def)
  also have "\<dots> \<longleftrightarrow> c = NEWLINE"
    by (simp only: of_char_eq_iff)
  finally show ?thesis .
qed

lemma fgetc_at_end:
  "drop (pos f) (content f) = [] \<Longrightarrow> fgetc f = (EOF, f\<lparr>eof := True\<rparr>)"
  by (simp add: fgetc_def)

lemma fgetc_next:
  assumes "drop (pos f) (content f) = c # cs"
  shows "fgetc f = (of_char c, f\<lparr>pos := pos f + 1\<rparr>)"
    and "drop (pos (f\<lparr>pos := pos f + 1\<rparr>)) (content (f\<lparr>pos := pos f + 1\<rparr>)) = cs"
proof -
  have l: "pos f < length (content f)"
    using assms by (cases "pos f < length (content f)") simp_all
  then have "drop (pos f) (content f) = content f ! pos f # drop (Suc (pos f)) (content f)"
    by (simp add: Cons_nth_drop_Suc)
  with assms have "content f ! pos f = c" "drop (Suc (pos f)) (content f) = cs"
    by simp_all
  with l show "fgetc f = (of_char c, f\<lparr>pos := pos f + 1\<rparr>)"
    and "drop (pos (f\<lparr>pos := pos f + 1\<rparr>)) (content (f\<lparr>pos := pos f + 1\<rparr>)) = cs"
    by (simp_all add: fgetc_def)
qed

lemma to_char_EOF_self [simp]: "to_char EOF = EOF"
  by (simp add: to_char_def EOF_def)

lemma skip_lines_short:
  assumes "drop (pos f) (content f) = rest" "nlines < nskip"
    "count_list rest NEWLINE < nat (nskip - nlines)"
  shows "skip_lines nskip nlines f = Inl (Throw ''Reached EOF prematurely'')"
  using assms
proof (induction rest arbitrary: f nlines)
  case Nil
  then show ?case
    by (subst skip_lines.simps) (simp add: fgetc_at_end)
next
  case (Cons c cs)
  note g = fgetc_next [OF Cons.prems(1)]
  show ?case
  proof (cases "c = CHR 0xFF")
    case True
    then have "to_char (of_char c) = EOF"
      by (simp only: to_char_EOF)
    then show ?thesis
      using Cons.prems(2) by (subst skip_lines.simps) (simp add: g(1))
  next
    case False
    let ?n = "if c = NEWLINE then nlines + 1 else nlines"
    have n: "?n < nskip" "count_list cs NEWLINE < nat (nskip - ?n)"
      using Cons.prems(2,3) by (auto split: if_splits)
    have "skip_lines nskip nlines f = skip_lines nskip ?n (f\<lparr>pos := pos f + 1\<rparr>)"
      using Cons.prems(2) False
      by (subst skip_lines.simps) (simp add: g(1) to_char_EOF to_char_NEWLINE)
    with Cons.IH [OF g(2) n] show ?thesis
      by simp
  qed
qed

lemma skip_lines_enough:
  assumes "drop (pos f) (content f) = rest" "nlines < nskip"
    "nat (nskip - nlines) \<le> count_list rest NEWLINE" "CHR 0xFF \<notin> set rest"
  shows "\<exists>n. skip_lines nskip nlines f = Inr (f\<lparr>pos := pos f + n\<rparr>) \<and>
           0 < n \<and> n \<le> length rest \<and>
           count_list (take n rest) NEWLINE = nat (nskip - nlines) \<and>
           rest ! (n - 1) = NEWLINE"
  using assms
proof (induction rest arbitrary: f nlines)
  case Nil
  then show ?case by simp
next
  case (Cons c cs)
  note g = fgetc_next [OF Cons.prems(1)]
  have c: "c \<noteq> CHR 0xFF" and cs: "CHR 0xFF \<notin> set cs"
    using Cons.prems(4) by auto
  let ?n = "if c = NEWLINE then nlines + 1 else nlines"
  have step: "skip_lines nskip nlines f = skip_lines nskip ?n (f\<lparr>pos := pos f + 1\<rparr>)"
    using Cons.prems(2) c
    by (subst skip_lines.simps) (simp add: g(1) to_char_EOF to_char_NEWLINE)
  show ?case
  proof (cases "?n < nskip")
    case True
    have "nat (nskip - ?n) \<le> count_list cs NEWLINE"
      using Cons.prems(2,3) by (auto split: if_splits)
    from Cons.IH [OF g(2) True this cs] obtain m where
      m: "skip_lines nskip ?n (f\<lparr>pos := pos f + 1\<rparr>) =
            Inr (f\<lparr>pos := pos f + 1\<rparr>\<lparr>pos := pos (f\<lparr>pos := pos f + 1\<rparr>) + m\<rparr>)"
        "0 < m" "m \<le> length cs" "count_list (take m cs) NEWLINE = nat (nskip - ?n)"
        "cs ! (m - 1) = NEWLINE"
      by blast
    have "count_list (take (Suc m) (c # cs)) NEWLINE = nat (nskip - nlines)"
      using m(4) Cons.prems(2) True by (auto split: if_splits)
    moreover have "(c # cs) ! (Suc m - 1) = NEWLINE"
      using m(2,5) by (cases m) simp_all
    moreover have "skip_lines nskip nlines f = Inr (f\<lparr>pos := pos f + Suc m\<rparr>)"
      using step m(1) by simp
    ultimately show ?thesis
      using m(3) by (intro exI [of _ "Suc m"]) simp
  next
    case False
    with Cons.prems(2) have e: "c = NEWLINE" "nskip = nlines + 1"
      by (auto split: if_splits)
    have "skip_lines nskip (nlines + 1) (f\<lparr>pos := pos f + 1\<rparr>) = Inr (f\<lparr>pos := pos f + 1\<rparr>)"
      using e(2) by (subst skip_lines.simps) simp
    with step e show ?thesis
      by (intro exI [of _ 1]) simp
  qed
qed

text \<open>
  What \<^verbatim>\<open>SkipRows\<close> does where no byte \<^verbatim>\<open>0xFF\<close> is met. Skipping \<open>k > 0\<close> rows moves a
  seekable Binary file forward by exactly \<open>mRowSize * k\<close> bytes. On a Delimited file,
  whitespace-tokenized or not, it fails with the premature end-of-file error when fewer
  than \<open>k\<close> newline characters remain, and otherwise, when none of the remaining bytes
  is \<^verbatim>\<open>0xFF\<close>, it consumes the bytes up to and including the \<open>k\<close>-th newline character and
  no more.
\<close>

lemma skip_rows_plain:
  assumes "the_file s = Inr f" "0 < k"
  shows "(mFileType s = BINARY_FILE \<and> seekable f \<and> 0 \<le> mRowSize s \<longrightarrow>
            SkipRows current_row (current_row + k) s =
              Inr (s\<lparr>mFptr := Some (f\<lparr>pos := pos f + nat (mRowSize s * k), eof := False\<rparr>)\<rparr>)) \<and>
         (mFileType s = ASCII_FILE \<and>
          count_list (drop (pos f) (content f)) NEWLINE < nat k \<longrightarrow>
            SkipRows current_row (current_row + k) s = Inl (Throw ''Reached EOF prematurely'')) \<and>
         (mFileType s = ASCII_FILE \<and>
          nat k \<le> count_list (drop (pos f) (content f)) NEWLINE \<and>
          CHR 0xFF \<notin> set (drop (pos f) (content f)) \<longrightarrow>
            (\<exists>n. SkipRows current_row (current_row + k) s =
                    Inr (s\<lparr>mFptr := Some (f\<lparr>pos := pos f + n\<rparr>)\<rparr>) \<and>
                 n \<le> length (drop (pos f) (content f)) \<and>
                 count_list (take n (drop (pos f) (content f))) NEWLINE = nat k \<and>
                 drop (pos f) (content f) ! (n - 1) = NEWLINE))"
proof (intro conjI impI)
  assume h: "mFileType s = BINARY_FILE \<and> seekable f \<and> 0 \<le> mRowSize s"
  with assms(2) have p: "0 \<le> mRowSize s * k"
    by simp
  have q: "\<not> int (pos f) + mRowSize s * k < 0"
    using p by linarith
  have r: "nat (int (pos f) + mRowSize s * k) = pos f + nat (mRowSize s * k)"
    using p by (simp add: nat_add_distrib)
  show "SkipRows current_row (current_row + k) s =
      Inr (s\<lparr>mFptr := Some (f\<lparr>pos := pos f + nat (mRowSize s * k), eof := False\<rparr>)\<rparr>)"
    using assms h by (simp add: SkipRows_def SkipBinaryRows_def fseeko_def q r)
next
  assume "mFileType s = ASCII_FILE \<and> count_list (drop (pos f) (content f)) NEWLINE < nat k"
  then show "SkipRows current_row (current_row + k) s = Inl (Throw ''Reached EOF prematurely'')"
    using assms skip_lines_short [of f _ 0 k]
    by (simp add: SkipRows_def SkipAsciiRows_def)
next
  assume h: "mFileType s = ASCII_FILE \<and>
          nat k \<le> count_list (drop (pos f) (content f)) NEWLINE \<and>
          CHR 0xFF \<notin> set (drop (pos f) (content f))"
  with skip_lines_enough [of f _ 0 k] assms(2) obtain n where
    "skip_lines k 0 f = Inr (f\<lparr>pos := pos f + n\<rparr>)"
    "n \<le> length (drop (pos f) (content f))"
    "count_list (take n (drop (pos f) (content f))) NEWLINE = nat k"
    "drop (pos f) (content f) ! (n - 1) = NEWLINE"
    by auto
  with h assms show "\<exists>n. SkipRows current_row (current_row + k) s =
                    Inr (s\<lparr>mFptr := Some (f\<lparr>pos := pos f + n\<rparr>)\<rparr>) \<and>
                 n \<le> length (drop (pos f) (content f)) \<and>
                 count_list (take n (drop (pos f) (content f))) NEWLINE = nat k \<and>
                 drop (pos f) (content f) ! (n - 1) = NEWLINE"
    by (intro exI [of _ n]) (simp add: SkipRows_def SkipAsciiRows_def)
qed

text \<open>
  Skipping two rows: 6 bytes of the binary file, the 12 bytes of two lines of the
  delimited one; skipping five rows of the delimited file, which has three, fails.
\<close>

lemma skip_rows_plain_example:
  "map_sum id (\<lambda>s. map_option pos (mFptr s)) (SkipRows 0 (0 + 2) binary_session) = Inr (Some 6) \<and>
   SkipRows 0 (0 + 5) comma_session = Inl (Throw ''Reached EOF prematurely'') \<and>
   (\<exists>n. map_sum id (\<lambda>s. map_option pos (mFptr s)) (SkipRows 0 (0 + 2) comma_session) =
           Inr (Some n) \<and>
        count_list (take n ''a,b,c\<newline>d,e,f\<newline>g,h,i\<newline>'') NEWLINE = 2)"
proof -
  let ?b = "file_of ''abcdefghi''"
  let ?c = "file_of ''a,b,c\<newline>d,e,f\<newline>g,h,i\<newline>''"
  have b: "the_file binary_session = Inr ?b" "mFileType binary_session = BINARY_FILE"
    "mRowSize binary_session = 3"
    by code_simp+
  have c: "the_file comma_session = Inr ?c" "mFileType comma_session = ASCII_FILE"
    by code_simp+
  have f: "pos ?b = 0" "seekable ?b" "pos ?c = 0"
    "content ?c = ''a,b,c\<newline>d,e,f\<newline>g,h,i\<newline>''"
    by (simp_all add: file_of_def)
  have 1: "SkipRows 0 (0 + 2) binary_session =
             Inr (binary_session\<lparr>mFptr := Some (?b\<lparr>pos := pos ?b + nat (mRowSize binary_session * 2),
                                                    eof := False\<rparr>)\<rparr>)"
    by (rule mp [OF conjunct1 [OF skip_rows_plain [OF b(1), of 2 0]]]) (simp_all add: b f)
  have 2: "SkipRows 0 (0 + 5) comma_session = Inl (Throw ''Reached EOF prematurely'')"
    by (rule mp [OF conjunct1 [OF conjunct2 [OF skip_rows_plain [OF c(1), of 5 0]]]])
       (simp_all add: c f NEWLINE_def)
  have "\<exists>n. SkipRows 0 (0 + 2) comma_session =
              Inr (comma_session\<lparr>mFptr := Some (?c\<lparr>pos := pos ?c + n\<rparr>)\<rparr>) \<and>
            n \<le> length (drop (pos ?c) (content ?c)) \<and>
            count_list (take n (drop (pos ?c) (content ?c))) NEWLINE = nat 2 \<and>
            drop (pos ?c) (content ?c) ! (n - 1) = NEWLINE"
    by (rule mp [OF conjunct2 [OF conjunct2 [OF skip_rows_plain [OF c(1), of 2 0]]]])
       (simp_all add: c f NEWLINE_def)
  then obtain n where
    "SkipRows 0 (0 + 2) comma_session =
       Inr (comma_session\<lparr>mFptr := Some (?c\<lparr>pos := pos ?c + n\<rparr>)\<rparr>)"
    "count_list (take n (drop (pos ?c) (content ?c))) NEWLINE = nat 2"
    by blast
  then have 3: "\<exists>n. map_sum id (\<lambda>s. map_option pos (mFptr s)) (SkipRows 0 (0 + 2) comma_session) =
           Inr (Some n) \<and>
        count_list (take n ''a,b,c\<newline>d,e,f\<newline>g,h,i\<newline>'') NEWLINE = 2"
    by (intro exI [of _ n]) (simp add: f)
  from 1 2 3 show ?thesis
    by (simp add: b(3) f)
qed

lemma skip_rows_example:
  "map_sum id (\<lambda>s. map_option pos (mFptr s)) (SkipRows 0 2 comma_session) = Inr (Some 12)"
  by code_simp

text \<open>The byte \<^verbatim>\<open>0xFF\<close> ends the skip, whatever follows it.\<close>

lemma skip_lines_high_byte:
  assumes "drop (pos f) (content f) = CHR 0xFF # cs" "nlines < nskip"
  shows "skip_lines nskip nlines f = Inl (Throw ''Reached EOF prematurely'')"
proof -
  have "to_char (of_char (CHR 0xFF)) = EOF"
    by (simp only: to_char_EOF)
  then show ?thesis
    using assms(2) by (subst skip_lines.simps) (simp add: fgetc_next(1) [OF assms(1)])
qed

text \<open>
  Claim C7 is not met by the code: \<^verbatim>\<open>SkipAsciiRows\<close> assigns the result of \<^verbatim>\<open>fgetc\<close> to a
  \<^verbatim>\<open>char\<close> before it compares it with \<^verbatim>\<open>EOF\<close>, so the byte \<^verbatim>\<open>0xFF\<close> of a row to skip is taken
  for the end of the input. A file of two rows delimited by commas, the first value of
  the first row being the byte \<^verbatim>\<open>0xFF\<close>, is read with the row subset \<open>[1]\<close>: the skip of
  row 0 fails with the premature end-of-file error although both newline characters
  are there. The same read of the file with the letter \<open>a\<close> in place of that byte
  returns the row \<^verbatim>\<open>d,e,f\<close>.
\<close>

theorem skip_rows_high_byte:
  "andthen
     (Records (FileObject (Some (file_of (CHR 0xFF # '',b,c\<newline>d,e,f\<newline>'')))) ''r''
        (Some (PyString '','')) (DtypeDescr abc_descr) 2)
     (Read example_platform (RowsArray [1]) None)
     = Inl (Throw ''Reached EOF prematurely'') \<and>
   count_list (CHR 0xFF # '',b,c\<newline>d,e,f\<newline>'') NEWLINE = 2 \<and>
   map_sum id mArea
     (andthen
        (Records (FileObject (Some (file_of ''a,b,c\<newline>d,e,f\<newline>''))) ''r''
           (Some (PyString '','')) (DtypeDescr abc_descr) 2)
        (Read example_platform (RowsArray [1]) None))
     = Inr ''def''"
  by code_simp

subsection \<open>String fields of a delimited file\<close>

lemma length_upto_n [simp]: "length (upto_n n) = nat n"
  by (simp add: upto_n_def)

text \<open>The data byte \<^verbatim>\<open>0xFF\<close> ends the read of a string field like the end of the input.\<close>

lemma read_char_high_byte:
  assumes "drop (pos f) (content f) = CHR 0xFF # cs" "at names fnum = Inr name"
  shows "read_char names fnum keep i (f, area, buff) = Inl Throw_dangling"
proof -
  have "to_char (of_char (CHR 0xFF)) = EOF"
    by (simp only: to_char_EOF)
  then show ?thesis
    by (simp add: read_char_def fgetc_next(1) [OF assms(1)] assms(2))
qed

text \<open>
  The separator after an element is read with no test: at the end of the input the
  element is complete, and the stream has its end-of-file indicator set.
\<close>

lemma read_element_at_end:
  assumes "for_each (read_char names fnum keep) (upto_n w) st = Inr (f, area, buff)"
    "drop (pos f) (content f) = []"
  shows "read_element names fnum keep w el st = Inr (f\<lparr>eof := True\<rparr>, area, buff)"
  by (simp add: read_element_def assms(1) fgetc_at_end [OF assms(2)])

lemma to_int32_id:
  assumes "- 2147483648 \<le> n" "n < 2147483648"
  shows "to_int32 n = n"
proof -
  have "(n + 2147483648) mod 4294967296 = n + 2147483648"
    using assms by (intro mod_pos_pos_trivial) simp_all
  then show ?thesis
    by (simp add: to_int32_def)
qed

lemma byte_of_to_char: "byte_of (to_char (of_char c)) = c"
proof -
  have "byte_of (to_char (of_char c)) = char_of (to_char (of_char c))"
    by (simp add: byte_of_def)
  also have "\<dots> = char_of (of_char c :: int)"
  proof (cases "(of_char c :: int) < 128")
    case True
    then show ?thesis
      using of_char_int_range [of c] by (simp add: to_char_byte)
  next
    case False
    have "char_of ((of_char c :: int) - 256) = char_of (((of_char c :: int) - 256) mod 256)"
      by (simp only: char_of_mod_256)
    also have "((of_char c :: int) - 256) mod 256 = (of_char c :: int) mod 256"
      by simp
    finally show ?thesis
      using False of_char_int_range [of c] by (simp add: to_char_byte)
  qed
  finally show ?thesis
    by simp
qed

lemma poke_byte: "0 \<le> k \<Longrightarrow> nat k < length area \<Longrightarrow> poke area k [c] = Inr (area[nat k := c])"
  by (simp add: poke_def upd_conv_take_nth_drop)

lemma read_char_next:
  assumes "drop (pos f) (content f) = c # cs" "c \<noteq> CHR 0xFF" "0 \<le> buff" "nat buff < length area"
  shows "read_char names fnum True i (f, area, buff) =
           Inr (f\<lparr>pos := pos f + 1\<rparr>, area[nat buff := c], buff + 1)"
  using assms(2)
  by (simp add: read_char_def fgetc_next(1) [OF assms(1)] to_char_EOF byte_of_to_char store_def
      poke_byte [OF assms(3,4)])

lemma read_char_at_end:
  assumes "drop (pos f) (content f) = []" "at names fnum = Inr name"
  shows "read_char names fnum keep i (f, area, buff) = Inl Throw_dangling"
  by (simp add: read_char_def fgetc_at_end [OF assms(1)] assms(2))

lemma read_chars_enough:
  assumes "drop (pos f) (content f) = rest" "length js \<le> length rest"
    "CHR 0xFF \<notin> set rest" "0 \<le> buff" "nat buff + length js \<le> length area"
  shows "\<exists>area'. for_each (read_char names fnum True) js (f, area, buff) =
                   Inr (f\<lparr>pos := pos f + length js\<rparr>, area', buff + int (length js)) \<and>
                 length area' = length area"
  using assms
proof (induction js arbitrary: f area buff rest)
  case Nil
  then show ?case by simp
next
  case (Cons j js)
  then obtain c cs where r: "rest = c # cs" by (cases rest) auto
  with Cons.prems have d: "drop (pos f) (content f) = c # cs" and c: "c \<noteq> CHR 0xFF"
    and l: "length js \<le> length cs" and n: "CHR 0xFF \<notin> set cs"
    by auto
  have b: "nat buff < length area" "0 \<le> buff + 1"
    "nat (buff + 1) + length js \<le> length (area[nat buff := c])"
    using Cons.prems(4,5) by (simp_all add: nat_add_distrib)
  from Cons.IH [OF fgetc_next(2) [OF d] l n b(2,3)] obtain area' where
    "for_each (read_char names fnum True) js
       (f\<lparr>pos := pos f + 1\<rparr>, area[nat buff := c], buff + 1) =
     Inr (f\<lparr>pos := pos f + 1\<rparr>\<lparr>pos := pos (f\<lparr>pos := pos f + 1\<rparr>) + length js\<rparr>, area',
          buff + 1 + int (length js))"
    "length area' = length (area[nat buff := c])"
    by blast
  then show ?case
    by (intro exI [of _ area'])
       (simp add: read_char_next [OF d c Cons.prems(4) b(1)] add.assoc add.commute
          add.left_commute)
qed

lemma read_chars_short:
  assumes "drop (pos f) (content f) = rest" "length rest < length js"
    "CHR 0xFF \<notin> set rest" "0 \<le> buff" "nat buff + length js \<le> length area"
    "at names fnum = Inr name"
  shows "for_each (read_char names fnum True) js (f, area, buff) = Inl Throw_dangling"
  using assms(1-5)
proof (induction js arbitrary: f area buff rest)
  case Nil
  then show ?case by simp
next
  case (Cons j js)
  show ?case
  proof (cases rest)
    case Nil
    with Cons.prems(1) show ?thesis
      by (simp add: read_char_at_end [OF _ assms(6)])
  next
    case (Cons c cs)
    with Cons.prems have d: "drop (pos f) (content f) = c # cs" and c: "c \<noteq> CHR 0xFF"
      and l: "length cs < length js" and n: "CHR 0xFF \<notin> set cs"
      by auto
    have b: "nat buff < length area" "0 \<le> buff + 1"
      "nat (buff + 1) + length js \<le> length (area[nat buff := c])"
      using Cons.prems(4,5) by (simp_all add: nat_add_distrib)
    from Cons.IH [OF fgetc_next(2) [OF d] l n b(2,3)]
    show ?thesis
      by (simp add: read_char_next [OF d c Cons.prems(4) b(1)])
  qed
qed

lemma drop_after:
  "drop (pos f) (content f) = rest \<Longrightarrow>
     drop (pos (f\<lparr>pos := pos f + n\<rparr>)) (content (f\<lparr>pos := pos f + n\<rparr>)) = drop n rest"
  by (auto simp: add.commute)

text \<open>One element: the data characters and the separator, or the end of the input.\<close>

lemma read_element_more:
  assumes "drop (pos f) (content f) = rest" "nat w < length rest" "CHR 0xFF \<notin> set rest"
    "0 \<le> buff" "nat buff + nat w \<le> length area"
  shows "\<exists>area'. read_element names fnum True w el (f, area, buff) =
                   Inr (f\<lparr>pos := pos f + nat w + 1\<rparr>, area', buff + int (nat w)) \<and>
                 length area' = length area"
proof -
  from read_chars_enough [OF assms(1) _ assms(3,4), of "upto_n w" area names fnum] assms(2,5)
  obtain area' where
    a: "for_each (read_char names fnum True) (upto_n w) (f, area, buff) =
          Inr (f\<lparr>pos := pos f + nat w\<rparr>, area', buff + int (nat w))"
       "length area' = length area"
    by auto
  have "drop (pos (f\<lparr>pos := pos f + nat w\<rparr>)) (content (f\<lparr>pos := pos f + nat w\<rparr>))
      = rest ! nat w # drop (Suc (nat w)) rest"
    using drop_after [OF assms(1), of "nat w"] assms(2) by (simp add: Cons_nth_drop_Suc)
  with a show ?thesis
    by (intro exI [of _ area']) (simp add: read_element_def fgetc_next(1))
qed

lemma read_element_exact:
  assumes "drop (pos f) (content f) = rest" "length rest = nat w" "CHR 0xFF \<notin> set rest"
    "0 \<le> buff" "nat buff + nat w \<le> length area"
  shows "\<exists>area'. read_element names fnum True w el (f, area, buff) =
                   Inr (f\<lparr>pos := pos f + nat w, eof := True\<rparr>, area', buff + int (nat w)) \<and>
                 length area' = length area"
proof -
  from read_chars_enough [OF assms(1) _ assms(3,4), of "upto_n w" area names fnum] assms(2,5)
  obtain area' where
    a: "for_each (read_char names fnum True) (upto_n w) (f, area, buff) =
          Inr (f\<lparr>pos := pos f + nat w\<rparr>, area', buff + int (nat w))"
       "length area' = length area"
    by auto
  have "drop (pos (f\<lparr>pos := pos f + nat w\<rparr>)) (content (f\<lparr>pos := pos f + nat w\<rparr>)) = []"
    using drop_after [OF assms(1), of "nat w"] assms(2) by simp
  with a show ?thesis
    by (intro exI [of _ area']) (simp add: read_element_def fgetc_at_end)
qed

lemma read_element_short:
  assumes "drop (pos f) (content f) = rest" "length rest < nat w" "CHR 0xFF \<notin> set rest"
    "0 \<le> buff" "nat buff + nat w \<le> length area" "at names fnum = Inr name"
  shows "read_element names fnum True w el (f, area, buff) = Inl Throw_dangling"
  using read_chars_short [OF assms(1) _ assms(3,4) _ assms(6), of "upto_n w" area] assms(2,5)
  by (simp add: read_element_def)

lemma read_elements_more:
  assumes "drop (pos f) (content f) = rest" "length els * (nat w + 1) \<le> length rest"
    "CHR 0xFF \<notin> set rest" "0 \<le> buff" "nat buff + length els * nat w \<le> length area"
  shows "\<exists>area'. for_each (read_element names fnum True w) els (f, area, buff) =
                   Inr (f\<lparr>pos := pos f + length els * (nat w + 1)\<rparr>, area',
                        buff + int (length els * nat w)) \<and>
                 length area' = length area"
  using assms
proof (induction els arbitrary: f area buff rest)
  case Nil
  then show ?case by simp
next
  case (Cons el els)
  have w: "nat w < length rest"
    using Cons.prems(2) by simp
  have b: "nat buff + nat w \<le> length area"
    using Cons.prems(5) by simp
  from read_element_more [OF Cons.prems(1) w Cons.prems(3,4) b, of names fnum el]
  obtain area1 where
    1: "read_element names fnum True w el (f, area, buff) =
          Inr (f\<lparr>pos := pos f + nat w + 1\<rparr>, area1, buff + int (nat w))"
       "length area1 = length area"
    by blast
  let ?f = "f\<lparr>pos := pos f + nat w + 1\<rparr>"
  have d: "drop (pos ?f) (content ?f) = drop (nat w + 1) rest"
    using drop_after [OF Cons.prems(1), of "nat w + 1"] by (simp add: add.assoc)
  have l: "length els * (nat w + 1) \<le> length (drop (nat w + 1) rest)"
    using Cons.prems(2) by simp
  have n: "CHR 0xFF \<notin> set (drop (nat w + 1) rest)"
    using Cons.prems(3) by (meson in_set_dropD)
  have b1: "0 \<le> buff + int (nat w)"
    "nat (buff + int (nat w)) + length els * nat w \<le> length area1"
    using Cons.prems(4,5) 1(2) by (simp_all add: nat_add_distrib)
  from Cons.IH [OF d l n b1] obtain area' where
    "for_each (read_element names fnum True w) els (?f, area1, buff + int (nat w)) =
       Inr (?f\<lparr>pos := pos ?f + length els * (nat w + 1)\<rparr>, area',
            buff + int (nat w) + int (length els * nat w))"
    "length area' = length area1"
    by blast
  then show ?case
    by (intro exI [of _ area'])
       (simp add: 1 add.assoc add.commute add.left_commute)
qed

lemma read_elements_exact:
  assumes "drop (pos f) (content f) = rest" "els \<noteq> []"
    "length rest + 1 = length els * (nat w + 1)" "CHR 0xFF \<notin> set rest"
    "0 \<le> buff" "nat buff + length els * nat w \<le> length area"
  shows "\<exists>st. for_each (read_element names fnum True w) els (f, area, buff) =
                Inr (f\<lparr>pos := pos f + length rest, eof := True\<rparr>, st)"
proof -
  define m where "m = length (butlast els) * (nat w + 1)"
  define k where "k = length (butlast els) * nat w"
  have e: "els = butlast els @ [last els]"
    using assms(2) by simp
  have le: "length els = Suc (length (butlast els))"
    using assms(2) by (cases els rule: rev_cases) simp_all
  have m: "m + nat w = length rest"
    using assms(3) unfolding m_def le by simp
  then have 0: "length (butlast els) * (nat w + 1) \<le> length rest"
    unfolding m_def by simp
  have kb: "nat buff + k + nat w \<le> length area"
    using assms(6) unfolding k_def le by simp
  then have kb0: "nat buff + length (butlast els) * nat w \<le> length area"
    unfolding k_def by simp
  from read_elements_more [OF assms(1) 0 assms(4,5) kb0, of names fnum] obtain area1 where
    1: "for_each (read_element names fnum True w) (butlast els) (f, area, buff) =
          Inr (f\<lparr>pos := pos f + m\<rparr>, area1, buff + int k)"
       "length area1 = length area"
    unfolding m_def k_def by blast
  have d: "drop (pos (f\<lparr>pos := pos f + m\<rparr>)) (content (f\<lparr>pos := pos f + m\<rparr>)) = drop m rest"
    by (rule drop_after [OF assms(1)])
  have l: "length (drop m rest) = nat w"
    using m by simp
  have n: "CHR 0xFF \<notin> set (drop m rest)"
    using assms(4) by (meson in_set_dropD)
  have b1: "0 \<le> buff + int k" "nat (buff + int k) + nat w \<le> length area1"
    using assms(5) kb 1(2) by (simp_all add: nat_add_distrib)
  from read_element_exact [OF d l n b1, of names fnum "last els"] obtain area2 where
    2: "read_element names fnum True w (last els) (f\<lparr>pos := pos f + m\<rparr>, area1, buff + int k) =
          Inr (f\<lparr>pos := pos f + m\<rparr>\<lparr>pos := pos (f\<lparr>pos := pos f + m\<rparr>) + nat w, eof := True\<rparr>,
               area2, buff + int k + int (nat w))"
    by blast
  have "for_each (read_element names fnum True w) els (f, area, buff) =
          andthen (for_each (read_element names fnum True w) (butlast els) (f, area, buff))
            (for_each (read_element names fnum True w) [last els])"
    by (subst e) (rule for_each_append)
  also have "\<dots> = read_element names fnum True w (last els)
                      (f\<lparr>pos := pos f + m\<rparr>, area1, buff + int k)"
    by (simp only: 1 andthen_Inr for_each.simps) (simp add: andthen_def split: sum.splits)
  also note 2
  also have "f\<lparr>pos := pos f + m\<rparr>\<lparr>pos := pos (f\<lparr>pos := pos f + m\<rparr>) + nat w, eof := True\<rparr> =
             f\<lparr>pos := pos f + length rest, eof := True\<rparr>"
    using m by (simp add: add.assoc)
  finally show ?thesis
    by blast
qed

lemma read_elements_short:
  assumes "drop (pos f) (content f) = rest" "els \<noteq> []" "0 < w"
    "length rest + 1 < length els * (nat w + 1)" "CHR 0xFF \<notin> set rest"
    "0 \<le> buff" "nat buff + length els * nat w \<le> length area"
    "at names fnum = Inr name"
  shows "for_each (read_element names fnum True w) els (f, area, buff) = Inl Throw_dangling"
  using assms(1-7)
proof (induction els arbitrary: f area buff rest)
  case Nil
  then show ?case by simp
next
  case (Cons el els)
  have b: "nat buff + nat w \<le> length area"
    using Cons.prems(7) by simp
  consider "length rest < nat w" | "length rest = nat w" | "nat w < length rest"
    by linarith
  then show ?case
  proof cases
    case 1
    then show ?thesis
      by (simp add: read_element_short [OF Cons.prems(1) _ Cons.prems(5,6) b assms(8)])
  next
    case 2
    from read_element_exact [OF Cons.prems(1) 2 Cons.prems(5,6) b, of names fnum el]
    obtain area1 where
      1: "read_element names fnum True w el (f, area, buff) =
            Inr (f\<lparr>pos := pos f + nat w, eof := True\<rparr>, area1, buff + int (nat w))"
         "length area1 = length area"
      by blast
    let ?f = "f\<lparr>pos := pos f + nat w, eof := True\<rparr>"
    have d: "drop (pos ?f) (content ?f) = []"
      using Cons.prems(1) 2 by auto
    have ne: "els \<noteq> []"
      using Cons.prems(4) 2 by (cases els) simp_all
    then have l: "length ([]::string) + 1 < length els * (nat w + 1)"
      using Cons.prems(3) by (cases els) simp_all
    have b1: "0 \<le> buff + int (nat w)"
      "nat (buff + int (nat w)) + length els * nat w \<le> length area1"
      using Cons.prems(6,7) 1(2) by (simp_all add: nat_add_distrib)
    from Cons.IH [OF d ne Cons.prems(3) l _ b1]
    show ?thesis
      by (simp add: 1)
  next
    case 3
    from read_element_more [OF Cons.prems(1) 3 Cons.prems(5,6) b, of names fnum el]
    obtain area1 where
      1: "read_element names fnum True w el (f, area, buff) =
            Inr (f\<lparr>pos := pos f + nat w + 1\<rparr>, area1, buff + int (nat w))"
         "length area1 = length area"
      by blast
    let ?f = "f\<lparr>pos := pos f + nat w + 1\<rparr>"
    have d: "drop (pos ?f) (content ?f) = drop (nat w + 1) rest"
      using drop_after [OF Cons.prems(1), of "nat w + 1"] by (simp add: add.assoc)
    have l: "length (drop (nat w + 1) rest) + 1 < length els * (nat w + 1)"
      using Cons.prems(4) 3 by simp
    then have ne: "els \<noteq> []"
      by (cases els) simp_all
    have n: "CHR 0xFF \<notin> set (drop (nat w + 1) rest)"
      using Cons.prems(5) by (meson in_set_dropD)
    have b1: "0 \<le> buff + int (nat w)"
      "nat (buff + int (nat w)) + length els * nat w \<le> length area1"
      using Cons.prems(6,7) 1(2) by (simp_all add: nat_add_distrib)
    from Cons.IH [OF d ne Cons.prems(3) l n b1]
    show ?thesis
      by (simp add: 1)
  qed
qed

text \<open>
  What \<^verbatim>\<open>ReadAsciiBytes\<close> does where no byte \<^verbatim>\<open>0xFF\<close> is met. A string field of \<open>nel\<close>
  elements of \<open>w\<close> bytes each, kept, is read into an output array that has room for it,
  from a delimited file whose remaining bytes, none of them \<^verbatim>\<open>0xFF\<close>, end immediately after
  the last data character of the last element: the read returns without an error, at
  the end of the stream, the end-of-file indicator set by the unchecked read of the
  separator. With fewer bytes a data character is missing and the read throws.
\<close>

lemma string_field_plain:
  assumes "the_file s = Inr f" "at (mKeep s) fnum = Inr True" "at (mSizes s) fnum = Inr sz"
    "at (mNel s) fnum = Inr nel" "at (mNames s) fnum = Inr name"
    "0 < nel" "0 \<le> sz sdiv nel" "sz sdiv nel < 2147483648"
    "0 \<le> mData s" "mData s + nel * (sz sdiv nel) \<le> int (length (mArea s))"
    "CHR 0xFF \<notin> set (drop (pos f) (content f))"
  shows "(int (length (drop (pos f) (content f))) = nel * (sz sdiv nel + 1) - 1 \<longrightarrow>
            map_sum id mFptr (ReadAsciiBytes fnum s) =
              Inr (Some (f\<lparr>pos := pos f + length (drop (pos f) (content f)), eof := True\<rparr>))) \<and>
         (int (length (drop (pos f) (content f))) < nel * (sz sdiv nel + 1) - 1 \<and>
          0 < sz sdiv nel \<longrightarrow>
            ReadAsciiBytes fnum s = Inl Throw_dangling)"
proof (intro conjI impI)
  let ?rest = "drop (pos f) (content f)"
  let ?w = "sz sdiv nel"
  have ne: "upto_n nel \<noteq> []"
    using assms(6) by (simp add: upto_n_def)
  have p: "int (length (upto_n nel) * (nat ?w + 1)) = nel * (?w + 1)"
    using assms(6,7) by (simp add: algebra_simps)
  have "int (nat (mData s) + length (upto_n nel) * nat ?w) = mData s + nel * ?w"
    using assms(6,7,9) by simp
  with assms(10) have b: "nat (mData s) + length (upto_n nel) * nat ?w \<le> length (mArea s)"
    by linarith
  have i: "to_int32 ?w = ?w"
    using assms(7,8) by (intro to_int32_id) simp_all
  have r: "ReadAsciiBytes fnum s =
      andthen (for_each (read_element (mNames s) fnum True ?w) (upto_n nel) (f, mArea s, mData s))
        (\<lambda>(f', area, buff). Inr (s\<lparr>mFptr := Some f', mArea := area\<rparr>))"
    using assms(6) by (simp add: ReadAsciiBytes_def assms(1-4) c_div_def i)
  {
    assume "int (length ?rest) = nel * (?w + 1) - 1"
    with p have "length ?rest + 1 = length (upto_n nel) * (nat ?w + 1)"
      by linarith
    from read_elements_exact [OF refl ne this assms(11,9) b, of "mNames s" fnum] obtain st where
      "for_each (read_element (mNames s) fnum True ?w) (upto_n nel) (f, mArea s, mData s) =
         Inr (f\<lparr>pos := pos f + length ?rest, eof := True\<rparr>, st)"
      by blast
    then show "map_sum id mFptr (ReadAsciiBytes fnum s) =
              Inr (Some (f\<lparr>pos := pos f + length ?rest, eof := True\<rparr>))"
      by (simp add: r case_prod_beta)
  }
  {
    assume h: "int (length ?rest) < nel * (?w + 1) - 1 \<and> 0 < ?w"
    with p have "length ?rest + 1 < length (upto_n nel) * (nat ?w + 1)"
      by linarith
    from read_elements_short [OF refl ne _ this assms(11,9) b assms(5)] h
    show "ReadAsciiBytes fnum s = Inl Throw_dangling"
      by (simp add: r)
  }
qed

text \<open>
  Claim C10 is not met by the code. The separator after an element is indeed read with
  no test, and an input that ends after the last data character is read without an
  error: two strings of two bytes from the input \<^verbatim>\<open>ab,cd\<close>. But \<^verbatim>\<open>ReadAsciiBytes\<close> assigns
  the result of \<^verbatim>\<open>fgetc\<close> to a \<^verbatim>\<open>char\<close> before it compares it with \<^verbatim>\<open>EOF\<close>, so a data
  character \<^verbatim>\<open>0xFF\<close> is taken for the end of the input: the input \<^verbatim>\<open>ab,c\<close> followed by
  the byte \<^verbatim>\<open>0xFF\<close> is as long, ends after the last data character of the last element
  as well, and its read throws.
\<close>

theorem string_field_high_byte:
  "map_sum id (\<lambda>s. (mArea s, map_option pos (mFptr s), map_option eof (mFptr s)))
     (andthen
        (Records (FileObject (Some (file_of ''ab,cd''))) ''r'' (Some (PyString '',''))
           (DtypeDescr pair_descr) 1)
        (Read example_platform RowsAbsent None))
     = Inr (''abcd'', Some 5, Some True) \<and>
   andthen
     (Records (FileObject (Some (file_of (''ab,c'' @ [CHR 0xFF])))) ''r'' (Some (PyString '',''))
        (DtypeDescr pair_descr) 1)
     (Read example_platform RowsAbsent None)
     = Inl Throw_dangling \<and>
   length (''ab,c'' @ [CHR 0xFF]) = length ''ab,cd''"
  by code_simp

subsection \<open>The state of a session opened for reading\<close>

lemma GetFptr_fresh:
  "GetFptr fileobj s = Inr s' \<Longrightarrow>
     mFptr s' \<noteq> None \<and> mKeep s' = mKeep s \<and>
     mReadWholeFileBinary s' = mReadWholeFileBinary s \<and>
     mReadWholeRowBinary s' = mReadWholeRowBinary s"
  by (auto simp: GetFptr_def split: file_arg.splits option.splits)

lemma ProcessDelim_fresh:
  "ProcessDelim delimobj s = Inr s' \<Longrightarrow>
     mFptr s' = mFptr s \<and> mKeep s' = mKeep s \<and>
     mReadWholeFileBinary s' = mReadWholeFileBinary s \<and>
     mReadWholeRowBinary s' = mReadWholeRowBinary s"
  by (auto simp: ProcessDelim_def split: option.splits pyobj.splits sum.splits)

lemma SetFileType_fresh:
  "mFptr (SetFileType s) = mFptr s \<and> mKeep (SetFileType s) = mKeep s \<and>
   mReadWholeFileBinary (SetFileType s) = mReadWholeFileBinary s \<and>
   mReadWholeRowBinary (SetFileType s) = mReadWholeRowBinary s"
  by (simp add: SetFileType_def)

lemma length_field_infos:
  "field_infos d names = Inr infos \<Longrightarrow> length infos = length names"
  by (induction names arbitrary: infos) (auto simp: andthen_Inr_iff)

lemma ProcessDescr_fresh:
  assumes "ProcessDescr dtype s = Inr s'"
  shows "\<exists>d. dtype = DtypeDescr d \<and> mTypeDescr s' = Some d \<and> mNames s' = d_names d \<and>
           mNfields s' = int (length (d_names d)) \<and> mRowSize s' = d_elsize d \<and>
           mFptr s' = mFptr s \<and> mKeep s' = mKeep s \<and>
           mReadWholeFileBinary s' = mReadWholeFileBinary s \<and>
           mReadWholeRowBinary s' = mReadWholeRowBinary s \<and> mFileType s' = mFileType s"
proof (cases dtype)
  case (DtypeDescr d)
  with assms obtain s1 where
    c: "CopyFieldInfo d (s\<lparr>mTypeDescr := Some d\<rparr>) = Inr s1" and
    s': "s' = s1\<lparr>mNfields := int (length (mNames s1))\<rparr>"
    by (auto simp: ProcessDescr_def andthen_Inr_iff)
  from c obtain infos where
    "s1 = s\<lparr>mTypeDescr := Some d\<rparr>
            \<lparr>mNames := CopyDescrOrderedNames d,
             mOffsets := map (\<lambda>(offset, sz, n, t). offset) infos,
             mSizes := map (\<lambda>(offset, sz, n, t). sz) infos,
             mNel := map (\<lambda>(offset, sz, n, t). n) infos,
             mTypeNums := map (\<lambda>(offset, sz, n, t). t) infos,
             mRowSize := d_elsize d\<rparr>"
    by (auto simp: CopyFieldInfo_def Let_def andthen_Inr_iff)
  with s' DtypeDescr show ?thesis
    by (simp add: CopyDescrOrderedNames_def)
qed (use assms in \<open>simp_all add: ProcessDescr_def\<close>)

lemma Records_read:
  assumes "Records fileobj mode delimobj dtype nrows = Inr s" "mAction s = READ"
  shows "\<exists>d. mTypeDescr s = Some d \<and> mNames s = d_names d \<and>
           mNfields s = int (length (d_names d)) \<and> 1 \<le> mNrows s \<and> mFptr s \<noteq> None \<and>
           mKeep s = [] \<and> \<not> mReadWholeFileBinary s \<and> \<not> mReadWholeRowBinary s"
proof -
  from assms(1) obtain s1 s2 where
    g: "GetFptr fileobj (InitializeVariables\<lparr>mMode := c_str mode\<rparr>) = Inr s1" and
    d: "ProcessDelim delimobj s1 = Inr s2" and
    r: "(if first_char (mMode (SetFileType s2)) = CHR ''r'' then
           if dtype = DtypeNull \<or> nrows = - 9999
           then Inl (Throw ''You must send the datatype and number of rows when reading'')
           else andthen (ProcessDescr dtype (SetFileType s2\<lparr>mAction := READ\<rparr>))
                  (ProcessNrows nrows)
         else Inr (SetFileType s2\<lparr>mAction := WRITE\<rparr>)) = Inr s"
    by (rule Records_steps)
  have 1: "mFptr s1 \<noteq> None \<and> mKeep s1 = [] \<and> \<not> mReadWholeFileBinary s1 \<and>
           \<not> mReadWholeRowBinary s1"
    using GetFptr_fresh [OF g] by (simp add: InitializeVariables_def)
  have 2: "mFptr (SetFileType s2) \<noteq> None \<and> mKeep (SetFileType s2) = [] \<and>
           \<not> mReadWholeFileBinary (SetFileType s2) \<and> \<not> mReadWholeRowBinary (SetFileType s2)"
    using 1 ProcessDelim_fresh [OF d] SetFileType_fresh [of s2] by simp
  have m: "first_char (mMode (SetFileType s2)) = CHR ''r''"
  proof (rule ccontr)
    assume "first_char (mMode (SetFileType s2)) \<noteq> CHR ''r''"
    with r have "s = SetFileType s2\<lparr>mAction := WRITE\<rparr>"
      by simp
    with assms(2) show False
      by simp
  qed
  with r obtain s4 where
    p: "ProcessDescr dtype (SetFileType s2\<lparr>mAction := READ\<rparr>) = Inr s4" and
    n: "ProcessNrows nrows s4 = Inr s"
    by (auto simp: andthen_Inr_iff split: if_splits)
  from n have s: "s = s4\<lparr>mNrows := nrows\<rparr>" "1 \<le> nrows"
    by (auto simp: ProcessNrows_def split: if_splits)
  from ProcessDescr_fresh [OF p] 2 show ?thesis
    by (auto simp: s)
qed

subsection \<open>The requests and the counts\<close>

lemma upto_n_sorted: "sorted (upto_n n) \<and> distinct (upto_n n) \<and> set (upto_n n) = {0..<n}"
proof -
  have "set (upto_n n) = {0..<int (nat n)}"
    by (simp add: upto_n_def image_int_atLeastLessThan)
  also have "\<dots> = {0..<n}"
    by auto
  finally have "set (upto_n n) = {0..<n}" .
  moreover have "sorted (upto_n n)"
    by (simp add: upto_n_def sorted_map sorted_wrt_iff_nth_less)
  moreover have "distinct (upto_n n)"
    by (simp add: upto_n_def distinct_map)
  ultimately show ?thesis
    by simp
qed

lemma ascending_rows_all:
  assumes "sorted_wrt (<) xs" "list_all (\<lambda>r. 0 \<le> r \<and> r < n) xs" "int (length xs) = n"
  shows "xs = upto_n n"
proof -
  have sd: "sorted xs" "distinct xs"
    using assms(1) by (simp_all add: strict_sorted_iff)
  have sub: "set xs \<subseteq> {0..<n}"
    using assms(2) by (auto simp: list_all_iff)
  have "card (set xs) = length xs"
    using sd(2) by (rule distinct_card)
  also have "\<dots> = card {0..<n}"
    using assms(3) by simp
  finally have "set xs = {0..<n}"
    using sub by (intro card_subset_eq) simp_all
  with sd upto_n_sorted [of n] show ?thesis
    by (intro sorted_distinct_set_unique) simp_all
qed

lemma every_row_count:
  assumes "valid_row_subset n rows" "0 \<le> n" "rows \<noteq> RowsUnconvertible"
  shows "(case rows of RowsArray xs \<Rightarrow> int (length xs) | _ \<Rightarrow> n) = n \<longleftrightarrow>
           every_row_requested n rows"
proof (cases rows)
  case (RowsArray xs)
  have "int (length xs) = n \<longleftrightarrow> xs = upto_n n"
  proof
    assume "int (length xs) = n"
    with assms(1) RowsArray show "xs = upto_n n"
      by (intro ascending_rows_all) (simp_all add: valid_row_subset_def)
  next
    assume "xs = upto_n n"
    with assms(2) show "int (length xs) = n"
      by simp
  qed
  with RowsArray show ?thesis
    by (simp add: every_row_requested_def)
qed (use assms in \<open>simp_all add: every_row_requested_def\<close>)

lemma ProcessRowsToRead_Inr:
  assumes "ProcessRowsToRead rows s = Inr s1"
  shows "rows \<noteq> RowsUnconvertible \<and>
         mNrowsToRead s1 = (case rows of RowsArray xs \<Rightarrow> int (length xs) | _ \<Rightarrow> mNrows s) \<and>
         s1 = s\<lparr>mRowsToRead := mRowsToRead s1, mNrowsToRead := mNrowsToRead s1\<rparr>"
  using assms by (cases rows) (auto simp: ProcessRowsToRead_def Object2IntpArray_def)

lemma length_filter_all: "length (filter P xs) = length xs \<longleftrightarrow> list_all P xs"
proof (induction xs)
  case Nil
  then show ?case by simp
next
  case (Cons x xs)
  have "length (filter P xs) \<le> length xs"
    by (rule length_filter_le)
  then have "length (filter P xs) \<noteq> Suc (length xs)"
    by linarith
  with Cons show ?case
    by auto
qed

lemma ListStringMatch_count:
  assumes "ListStringMatch names items = Inr ids"
  shows "int (length ids) = int (length names) \<longleftrightarrow>
           items = [] \<or> list_all (\<lambda>name. name \<in> set (goodones items)) names"
proof (cases "items = []")
  case True
  with assms have "ids = upto_n (int (length names))"
    by (auto simp: ListStringMatch_def SequenceCheck_def andthen_Inr_iff split: if_splits)
  with True show ?thesis
    by simp
next
  case False
  with assms have "ids = filter (\<lambda>i. names ! nat i \<in> set (goodones items))
                            (upto_n (int (length names)))"
    by (auto simp: ListStringMatch_def SequenceCheck_def andthen_Inr_iff split: if_splits)
  then have "length ids = length (map (\<lambda>i. names ! nat i)
               (filter (\<lambda>i. names ! nat i \<in> set (goodones items)) (upto_n (int (length names)))))"
    by simp
  also have "\<dots> = length (filter (\<lambda>name. name \<in> set (goodones items)) names)"
    using map_nth_filter_upto [of names "\<lambda>name. name \<in> set (goodones items)"] by simp
  finally show ?thesis
    using False by (simp add: length_filter_all)
qed

lemma SubDtype_count:
  assumes "SubDtype d obj = Inr (newdescr, ids)"
  shows "int (length ids) = int (length (d_names d)) \<longleftrightarrow> every_field_requested (d_names d) (Some obj)"
proof (cases obj)
  case (PyList items)
  with assms have "ListStringMatch (d_names d) items = Inr ids"
    by (auto simp: SubDtype_def Let_def CopyDescrOrderedNames_def andthen_Inr_iff)
  from ListStringMatch_count [OF this] PyList show ?thesis
    by (simp add: every_field_requested_def)
next
  case (PyString str)
  with assms have "ListStringMatch (d_names d) [PyString str] = Inr ids"
    by (auto simp: SubDtype_def Let_def CopyDescrOrderedNames_def andthen_Inr_iff)
  from ListStringMatch_count [OF this] PyString show ?thesis
    by (simp add: every_field_requested_def list_all_iff)
qed (use assms in \<open>simp_all add: SubDtype_def Let_def\<close>)

lemma ProcessFieldsToRead_Inr:
  assumes "ProcessFieldsToRead fields_obj s = Inr s'" "mTypeDescr s = Some d"
    "mNfields s = int (length (d_names d))"
  shows "(mKeepNfields s' = mNfields s' \<longleftrightarrow> every_field_requested (d_names d) fields_obj) \<and>
         mFileType s' = mFileType s \<and> mNrows s' = mNrows s \<and>
         mNrowsToRead s' = mNrowsToRead s \<and>
         mReadWholeFileBinary s' = mReadWholeFileBinary s \<and>
         mReadWholeRowBinary s' = mReadWholeRowBinary s \<and>
         mRowSize s' = mRowSize s \<and> mFptr s' = mFptr s"
proof -
  let ?s1 = "s\<lparr>mKeep := resize (mNfields s) False (mKeep s)\<rparr>"
  let ?every = "?s1\<lparr>mKeepNfields := mNfields ?s1, mKeepId := upto_n (mNfields ?s1),
                      mKeepTypeDescr := mTypeDescr ?s1\<rparr>"
  from assms(1) obtain s2 where
    a: "(case fields_obj of
           None \<Rightarrow> Inr ?every
         | Some PyNone \<Rightarrow> Inr ?every
         | Some obj \<Rightarrow>
             (case mTypeDescr ?s1 of
                None \<Rightarrow> Inl (Undefined ''null type descriptor'')
              | Some d \<Rightarrow>
                  andthen (SubDtype d obj) (\<lambda>(newdescr, matchids).
                    Inr (?s1\<lparr>mKeepTypeDescr := Some newdescr, mKeepId := matchids,
                            mKeepNfields := int (length matchids)\<rparr>)))) = Inr s2" and
    b: "s' = s2\<lparr>mKeep := fold (\<lambda>i keep. keep[nat i := True]) (mKeepId s2) (mKeep s2)\<rparr>"
    unfolding ProcessFieldsToRead_def Let_def andthen_Inr_iff by blast
  have "(mKeepNfields s2 = mNfields s2 \<longleftrightarrow> every_field_requested (d_names d) fields_obj) \<and>
         mFileType s2 = mFileType s \<and> mNrows s2 = mNrows s \<and>
         mNrowsToRead s2 = mNrowsToRead s \<and>
         mReadWholeFileBinary s2 = mReadWholeFileBinary s \<and>
         mReadWholeRowBinary s2 = mReadWholeRowBinary s \<and>
         mRowSize s2 = mRowSize s \<and> mFptr s2 = mFptr s"
  proof (cases "fields_obj = None \<or> fields_obj = Some PyNone")
    case True
    with a have "s2 = ?every"
      by auto
    with True show ?thesis
      by (auto simp: every_field_requested_def)
  next
    case False
    then obtain obj where o: "fields_obj = Some obj" "obj \<noteq> PyNone"
      by (cases fields_obj) auto
    with a assms(2) have "andthen (SubDtype d obj) (\<lambda>(newdescr, matchids).
                    Inr (?s1\<lparr>mKeepTypeDescr := Some newdescr, mKeepId := matchids,
                            mKeepNfields := int (length matchids)\<rparr>)) = Inr s2"
      by (cases obj) simp_all
    then obtain newdescr ids where
      sd: "SubDtype d obj = Inr (newdescr, ids)" and
      s2: "s2 = ?s1\<lparr>mKeepTypeDescr := Some newdescr, mKeepId := ids,
                       mKeepNfields := int (length ids)\<rparr>"
      by (auto simp: andthen_Inr_iff)
    from SubDtype_count [OF sd] assms(3) o show ?thesis
      by (simp add: s2)
  qed
  then show ?thesis
    by (simp add: b)
qed

lemma CreateOutputArray_Inr:
  "CreateOutputArray s = Inr s' \<Longrightarrow> s' = s\<lparr>mArea := mArea s', mData := mData s'\<rparr>"
  by (auto simp: CreateOutputArray_def split: option.splits)

subsection \<open>The three strategies\<close>

lemma fread_enough:
  assumes "0 < sz" "0 < nmemb" "nat (sz * nmemb) \<le> length (drop (pos f) (content f))"
  shows "fread sz nmemb f =
           (take (nat (sz * nmemb)) (drop (pos f) (content f)), nmemb,
            f\<lparr>pos := pos f + nat (sz * nmemb)\<rparr>)"
proof -
  let ?bs = "take (nat (sz * nmemb)) (drop (pos f) (content f))"
  have p: "0 \<le> sz * nmemb"
    using assms(1,2) by simp
  have l: "length ?bs = nat (sz * nmemb)"
    using assms(3) by simp
  then have i: "int (length ?bs) = sz * nmemb"
    using p by simp
  then have "int (length ?bs) div sz = nmemb"
    using assms(1) by simp
  moreover have "f\<lparr>pos := pos f + length ?bs, eof := (eof f \<or> int (length ?bs) < sz * nmemb)\<rparr>
      = f\<lparr>pos := pos f + nat (sz * nmemb)\<rparr>"
    by (simp only: i l) simp
  ultimately show ?thesis
    using assms(1,2) by (simp add: fread_def Let_def)
qed

lemma ReadAllAsBinary_bulk:
  assumes "the_file s = Inr f" "0 < mRowSize s" "0 < mNrows s" "mNrows s < 2147483648"
    "nat (mRowSize s * mNrows s) \<le> length (drop (pos f) (content f))"
    "poke (mArea s) (mData s)
       (take (nat (mRowSize s * mNrows s)) (drop (pos f) (content f))) = Inr area"
  shows "ReadAllAsBinary s =
           Inr (s\<lparr>mFptr := Some (f\<lparr>pos := pos f + nat (mRowSize s * mNrows s)\<rparr>),
                  mArea := area\<rparr>)"
  using assms(3,4)
  by (simp add: ReadAllAsBinary_def assms(1,6) fread_enough [OF assms(2,3,5)] to_int32_id)

lemma ReadWholeRowBinary_row:
  assumes "the_file s = Inr f" "0 < mRowSize s"
    "nat (mRowSize s) \<le> length (drop (pos f) (content f))"
    "poke (mArea s) (mData s) (take (nat (mRowSize s)) (drop (pos f) (content f))) = Inr area"
  shows "ReadWholeRowBinary s =
           Inr (s\<lparr>mFptr := Some (f\<lparr>pos := pos f + nat (mRowSize s)\<rparr>),
                  mArea := area, mData := mData s + mRowSize s\<rparr>)"
  using fread_enough [OF assms(2), of 1 f] assms(3,4)
  by (simp add: ReadWholeRowBinary_def assms(1) to_int32_id)

text \<open>\<^verbatim>\<open>ReadFields\<close> goes through the fields one by one, in the order of the schema.\<close>

lemma ReadFields_step:
  "0 < mNfields s \<Longrightarrow>
     ReadFields p s =
       andthen (andthen (at (mKeep s) 0) (\<lambda>keep.
                  if keep then ReadField p 0 s else SkipField p 0 s))
         (for_each
            (\<lambda>fnum s'.
               andthen (at (mKeep s') fnum) (\<lambda>keep.
                 if keep then ReadField p fnum s' else SkipField p fnum s'))
            (map int [1..<nat (mNfields s)]))"
  by (simp add: ReadFields_def upto_n_def upt_conv_Cons)

lemma io_only_session:
  "io_only s t \<Longrightarrow>
     mReadWholeRowBinary t = mReadWholeRowBinary s \<and> mRowSize t = mRowSize s"
  unfolding io_only_def by (erule ssubst) simp

lemma ReadPrepare_flags:
  assumes "\<not> mReadWholeFileBinary s" "\<not> mReadWholeRowBinary s"
  shows "mReadWholeFileBinary (ReadPrepare p s) =
           (mFileType s = BINARY_FILE \<and> mNrowsToRead s = mNrows s \<and> mKeepNfields s = mNfields s)"
    and "mReadWholeRowBinary (ReadPrepare p s) =
           (mFileType s = BINARY_FILE \<and> mNrowsToRead s \<noteq> mNrows s \<and> mKeepNfields s = mNfields s)"
    and "mRowSize (ReadPrepare p s) = mRowSize s" "mNrows (ReadPrepare p s) = mNrows s"
    and "mFptr (ReadPrepare p s) = mFptr s" "mArea (ReadPrepare p s) = mArea s"
    and "mData (ReadPrepare p s) = mData s"
  using assms by (auto simp: ReadPrepare_def MakeScanFormats_def)

subsection \<open>The strategy of a read\<close>

lemma read_setup:
  assumes "Records fileobj mode delimobj dtype nrows = Inr s0" "mAction s0 = READ"
    and "selection rows fields_obj s0 = Inr s3"
    and "valid_row_subset (mNrows s0) rows"
  shows "(mNrowsToRead s3 = mNrows s3 \<longleftrightarrow> every_row_requested (mNrows s0) rows) \<and>
         (mKeepNfields s3 = mNfields s3 \<longleftrightarrow> every_field_requested (mNames s0) fields_obj) \<and>
         mFileType s3 = mFileType s0 \<and> mRowSize s3 = mRowSize s0 \<and> mNrows s3 = mNrows s0 \<and>
         \<not> mReadWholeFileBinary s3 \<and> \<not> mReadWholeRowBinary s3"
proof -
  from Records_read [OF assms(1,2)] obtain d where
    d: "mTypeDescr s0 = Some d" "mNames s0 = d_names d"
       "mNfields s0 = int (length (d_names d))" "1 \<le> mNrows s0"
       "\<not> mReadWholeFileBinary s0" "\<not> mReadWholeRowBinary s0"
    by blast
  from assms(3) obtain s1 s2 where
    1: "ProcessRowsToRead rows s0 = Inr s1" and
    2: "ProcessFieldsToRead fields_obj s1 = Inr s2" and
    3: "CreateOutputArray s2 = Inr s3"
    unfolding selection_def andthen_Inr_iff by blast
  note r = ProcessRowsToRead_Inr [OF 1]
  have s1: "mTypeDescr s1 = mTypeDescr s0" "mNfields s1 = mNfields s0"
    "mFileType s1 = mFileType s0" "mNrows s1 = mNrows s0" "mRowSize s1 = mRowSize s0"
    "mReadWholeFileBinary s1 = mReadWholeFileBinary s0"
    "mReadWholeRowBinary s1 = mReadWholeRowBinary s0"
    by (subst conjunct2 [OF conjunct2 [OF r]], simp)+
  have n: "mNrowsToRead s1 = mNrows s0 \<longleftrightarrow> every_row_requested (mNrows s0) rows"
    using every_row_count [OF assms(4), of ] d(4) r by simp
  note f = ProcessFieldsToRead_Inr [OF 2, of d]
  have s3: "mNrowsToRead s3 = mNrowsToRead s2" "mNrows s3 = mNrows s2"
    "mKeepNfields s3 = mKeepNfields s2" "mNfields s3 = mNfields s2"
    "mFileType s3 = mFileType s2" "mRowSize s3 = mRowSize s2"
    "mReadWholeFileBinary s3 = mReadWholeFileBinary s2"
    "mReadWholeRowBinary s3 = mReadWholeRowBinary s2"
    by (subst CreateOutputArray_Inr [OF 3], simp)+
  from f s1 d n show ?thesis
    by (simp add: s3)
qed

lemma Read_selection:
  "Read p rows fields_obj s =
     (if mFptr s = None then Inl (Throw ''File is not open'')
      else if mAction s \<noteq> READ then Inl (Throw ''File is not open for reading'')
      else andthen (selection rows fields_obj s) (\<lambda>s3. ReadFromFile p (ReadPrepare p s3)))"
  by (simp add: Read_def selection_def andthen_def split: sum.splits)

text \<open>
  The first read of a session. A session is opened for reading and the selection of
  its first read succeeds, the row subset, if there is one, being valid. Then
  \<^verbatim>\<open>ReadPrepare\<close> selects exactly one of three strategies.
  \<^item> Binary file, every row and every field requested: the whole file is read by one
    \<^verbatim>\<open>fread\<close> of \<open>mNrows\<close> items of \<open>mRowSize\<close> bytes; when the stream holds that many
    bytes (and the count fits the \<^verbatim>\<open>int\<close> that receives it, and the output array takes
    them) they all arrive in the data area.
  \<^item> Binary file, every field requested, not every row: the rows are read one by one,
    each as one block of \<open>mRowSize\<close> bytes.
  \<^item> Otherwise (a Delimited file, or a field subset): the rows are read one by one,
    each by \<^verbatim>\<open>ReadFields\<close>, which reads or skips field after field.
\<close>

lemma first_read_strategy:
  assumes "Records fileobj mode delimobj dtype nrows = Inr s0" "mAction s0 = READ"
    and "selection rows fields_obj s0 = Inr s3"
    and "valid_row_subset (mNrows s0) rows"
  shows
    "(mFileType s0 = BINARY_FILE \<and> every_row_requested (mNrows s0) rows \<and>
      every_field_requested (mNames s0) fields_obj \<longrightarrow>
        mReadWholeFileBinary (ReadPrepare p s3) \<and>
        \<not> mReadWholeRowBinary (ReadPrepare p s3) \<and>
        ReadFromFile p (ReadPrepare p s3) = ReadAllAsBinary (ReadPrepare p s3) \<and>
        (\<forall>f area. the_file s3 = Inr f \<and> 0 < mRowSize s0 \<and> mNrows s0 < 2147483648 \<and>
              nat (mRowSize s0 * mNrows s0) \<le> length (drop (pos f) (content f)) \<and>
              poke (mArea s3) (mData s3)
                (take (nat (mRowSize s0 * mNrows s0)) (drop (pos f) (content f))) = Inr area \<longrightarrow>
           ReadFromFile p (ReadPrepare p s3) =
             Inr ((ReadPrepare p s3)
                    \<lparr>mFptr := Some (f\<lparr>pos := pos f + nat (mRowSize s0 * mNrows s0)\<rparr>),
                     mArea := area\<rparr>))) \<and>
     (mFileType s0 = BINARY_FILE \<and> \<not> every_row_requested (mNrows s0) rows \<and>
      every_field_requested (mNames s0) fields_obj \<longrightarrow>
        \<not> mReadWholeFileBinary (ReadPrepare p s3) \<and> mReadWholeRowBinary (ReadPrepare p s3) \<and>
        ReadFromFile p (ReadPrepare p s3) = ReadRows p (ReadPrepare p s3) \<and>
        (\<forall>t. io_only (ReadPrepare p s3) t \<longrightarrow> ReadRow p t = ReadWholeRowBinary t) \<and>
        (\<forall>t f area. io_only (ReadPrepare p s3) t \<and> the_file t = Inr f \<and> 0 < mRowSize s0 \<and>
              nat (mRowSize s0) \<le> length (drop (pos f) (content f)) \<and>
              poke (mArea t) (mData t)
                (take (nat (mRowSize s0)) (drop (pos f) (content f))) = Inr area \<longrightarrow>
           ReadRow p t =
             Inr (t\<lparr>mFptr := Some (f\<lparr>pos := pos f + nat (mRowSize s0)\<rparr>),
                    mArea := area, mData := mData t + mRowSize s0\<rparr>))) \<and>
     (mFileType s0 = ASCII_FILE \<or> \<not> every_field_requested (mNames s0) fields_obj \<longrightarrow>
        \<not> mReadWholeFileBinary (ReadPrepare p s3) \<and>
        \<not> mReadWholeRowBinary (ReadPrepare p s3) \<and>
        ReadFromFile p (ReadPrepare p s3) = ReadRows p (ReadPrepare p s3) \<and>
        (\<forall>t. io_only (ReadPrepare p s3) t \<longrightarrow> ReadRow p t = ReadFields p t))"
proof -
  note u = read_setup [OF assms]
  have fl: "\<not> mReadWholeFileBinary s3" "\<not> mReadWholeRowBinary s3"
    using u by simp_all
  note P = ReadPrepare_flags [OF fl, of p]
  have A: "(mNrowsToRead s3 = mNrows s3) = every_row_requested (mNrows s0) rows"
    and B: "(mKeepNfields s3 = mNfields s3) = every_field_requested (mNames s0) fields_obj"
    and C: "mFileType s3 = mFileType s0"
    using u by blast+
  have ft: "mFileType s0 = ASCII_FILE \<longleftrightarrow> mFileType s0 \<noteq> BINARY_FILE"
    by (cases "mFileType s0") simp_all
  let ?s4 = "ReadPrepare p s3"
  have WF: "mReadWholeFileBinary ?s4 \<longleftrightarrow>
      mFileType s0 = BINARY_FILE \<and> every_row_requested (mNrows s0) rows \<and>
      every_field_requested (mNames s0) fields_obj"
    by (simp only: P(1) A B C)
  have WR: "mReadWholeRowBinary ?s4 \<longleftrightarrow>
      mFileType s0 = BINARY_FILE \<and> \<not> every_row_requested (mNrows s0) rows \<and>
      every_field_requested (mNames s0) fields_obj"
    by (simp only: P(2) A B C)
  have sz: "mRowSize ?s4 = mRowSize s0" "mNrows ?s4 = mNrows s0"
    using u by (simp_all add: P(3,4))
  have row: "ReadRow p t = (if mReadWholeRowBinary ?s4 then ReadWholeRowBinary t else ReadFields p t)"
    and tsz: "mRowSize t = mRowSize s0" if "io_only ?s4 t" for t
    using io_only_session [OF that] sz by (simp_all add: ReadRow_def)
  show ?thesis
  proof (intro conjI impI allI)
    assume h: "mFileType s0 = BINARY_FILE \<and> every_row_requested (mNrows s0) rows \<and>
      every_field_requested (mNames s0) fields_obj"
    then show "mReadWholeFileBinary ?s4" "\<not> mReadWholeRowBinary ?s4"
      by (simp_all add: WF WR)
    then show "ReadFromFile p ?s4 = ReadAllAsBinary ?s4"
      by (simp add: ReadFromFile_def)
    fix f area
    assume g: "the_file s3 = Inr f \<and> 0 < mRowSize s0 \<and> mNrows s0 < 2147483648 \<and>
              nat (mRowSize s0 * mNrows s0) \<le> length (drop (pos f) (content f)) \<and>
              poke (mArea s3) (mData s3)
                (take (nat (mRowSize s0 * mNrows s0)) (drop (pos f) (content f))) = Inr area"
    have n: "0 < mNrows s0"
      using Records_read [OF assms(1,2)] by auto
    have "ReadAllAsBinary ?s4 =
            Inr (?s4\<lparr>mFptr := Some (f\<lparr>pos := pos f + nat (mRowSize ?s4 * mNrows ?s4)\<rparr>),
                   mArea := area\<rparr>)"
      using g n by (intro ReadAllAsBinary_bulk) (simp_all add: sz the_file_def P(5,6,7))
    with h show "ReadFromFile p ?s4 =
             Inr (?s4\<lparr>mFptr := Some (f\<lparr>pos := pos f + nat (mRowSize s0 * mNrows s0)\<rparr>),
                     mArea := area\<rparr>)"
      by (simp add: ReadFromFile_def WF sz)
  next
    assume h: "mFileType s0 = BINARY_FILE \<and> \<not> every_row_requested (mNrows s0) rows \<and>
      every_field_requested (mNames s0) fields_obj"
    then show "\<not> mReadWholeFileBinary ?s4" "mReadWholeRowBinary ?s4"
      by (simp_all add: WF WR)
    then show "ReadFromFile p ?s4 = ReadRows p ?s4"
      by (simp add: ReadFromFile_def)
    show "ReadRow p t = ReadWholeRowBinary t" if "io_only ?s4 t" for t
      using row [OF that] h by (simp add: WR)
    fix t f area
    assume g: "io_only ?s4 t \<and> the_file t = Inr f \<and> 0 < mRowSize s0 \<and>
              nat (mRowSize s0) \<le> length (drop (pos f) (content f)) \<and>
              poke (mArea t) (mData t)
                (take (nat (mRowSize s0)) (drop (pos f) (content f))) = Inr area"
    then have i: "io_only ?s4 t"
      by simp
    have "ReadWholeRowBinary t =
           Inr (t\<lparr>mFptr := Some (f\<lparr>pos := pos f + nat (mRowSize t)\<rparr>),
                  mArea := area, mData := mData t + mRowSize t\<rparr>)"
      using g by (intro ReadWholeRowBinary_row) (simp_all add: tsz [OF i])
    with h show "ReadRow p t =
             Inr (t\<lparr>mFptr := Some (f\<lparr>pos := pos f + nat (mRowSize s0)\<rparr>),
                    mArea := area, mData := mData t + mRowSize s0\<rparr>)"
      by (simp add: row [OF i] WR tsz [OF i])
  next
    assume h: "mFileType s0 = ASCII_FILE \<or> \<not> every_field_requested (mNames s0) fields_obj"
    then show "\<not> mReadWholeFileBinary ?s4" "\<not> mReadWholeRowBinary ?s4"
      by (auto simp: WF WR)
    then show "ReadFromFile p ?s4 = ReadRows p ?s4"
      by (simp add: ReadFromFile_def)
    show "ReadRow p t = ReadFields p t" if "io_only ?s4 t" for t
      using row [OF that] h by (auto simp: WR)
  qed
qed

text \<open>
  Three first reads of the binary file of three rows of \<open>[a, b, c]\<close>: with no subset the
  whole file arrives by one bulk read; with the rows 0 and 2 each row is read as one
  block; with the rows 0 and 2 and the fields \<open>c\<close> and \<open>a\<close> the fields are read and
  skipped one by one.
\<close>

lemma first_read_examples:
  "map_sum id (\<lambda>s. (mArea s, map_option pos (mFptr s)))
     (Read example_platform RowsAbsent None binary_session) = Inr (''abcdefghi'', Some 9) \<and>
   map_sum id (\<lambda>s. (mArea s, map_option pos (mFptr s)))
     (Read example_platform (RowsArray [0, 2]) None binary_session) = Inr (''abcghi'', Some 9)"
  by code_simp

lemma read_subset_example:
  "map_sum id (\<lambda>s. (mArea s, map_option pos (mFptr s)))
     (Read example_platform (RowsArray [0, 2]) (Some (PyList [PyString ''c'', PyString ''a'']))
        binary_session) = Inr (''acgi'', Some 9)"
  by code_simp

subsection \<open>Rows of a delimited file\<close>

lemma fputs_unlimited:
  "room f = None \<Longrightarrow> fputs str f = (int (length str), f\<lparr>content := content f @ str\<rparr>)"
  by (simp add: fputs_def)

lemma write_chars_append:
  "\<exists>r. \<forall>f. room f = None \<longrightarrow>
     write_chars ign pad area buffer js f =
       (case r of Inl e \<Rightarrow> Inl e | Inr t \<Rightarrow> Inr (f\<lparr>content := content f @ t\<rparr>))"
proof (induction js)
  case Nil
  have "\<forall>f. room f = None \<longrightarrow>
     write_chars ign pad area buffer [] f =
       (case Inr [] of Inl e \<Rightarrow> Inl e | Inr t \<Rightarrow> Inr (f\<lparr>content := content f @ t\<rparr>))"
    by simp
  then show ?case ..
next
  case (Cons j js)
  then obtain r where r: "\<And>f. room f = None \<Longrightarrow>
     write_chars ign pad area buffer js f =
       (case r of Inl e \<Rightarrow> Inl e | Inr t \<Rightarrow> Inr (f\<lparr>content := content f @ t\<rparr>))"
    by blast
  show ?case
  proof (cases "at area (buffer + j)")
    case (Inl e)
    then have "\<forall>f. room f = None \<longrightarrow>
       write_chars ign pad area buffer (j # js) f =
         (case Inl e of Inl e \<Rightarrow> Inl e | Inr t \<Rightarrow> Inr (f\<lparr>content := content f @ t\<rparr>))"
      by simp
    then show ?thesis ..
  next
    case (Inr c)
    show ?thesis
    proof (cases "c = NUL \<and> ign")
      case True
      with Inr have "\<forall>f. room f = None \<longrightarrow>
         write_chars ign pad area buffer (j # js) f =
           (case Inr [] of Inl e \<Rightarrow> Inl e | Inr t \<Rightarrow> Inr (f\<lparr>content := content f @ t\<rparr>))"
        by simp
      then show ?thesis ..
    next
      case False
      let ?c = "if c = NUL \<and> pad then SPACE else c"
      have "\<forall>f. room f = None \<longrightarrow>
         write_chars ign pad area buffer (j # js) f =
           (case map_sum id (\<lambda>t. ?c # t) r of
              Inl e \<Rightarrow> Inl e | Inr t \<Rightarrow> Inr (f\<lparr>content := content f @ t\<rparr>))"
      proof (intro allI impI)
        fix f :: cfile
        assume f: "room f = None"
        then have "room (f\<lparr>content := content f @ [?c]\<rparr>) = None"
          by simp
        from r [OF this] False Inr f show "write_chars ign pad area buffer (j # js) f =
           (case map_sum id (\<lambda>t. ?c # t) r of
              Inl e \<Rightarrow> Inl e | Inr t \<Rightarrow> Inr (f\<lparr>content := content f @ t\<rparr>))"
          by (cases r) (auto simp: fputc_unlimited of_char_not_EOF)
      qed
      then show ?thesis ..
    qed
  qed
qed

lemma WriteStringAsAscii_append:
  "\<exists>r. \<forall>f. room f = None \<longrightarrow>
     WriteStringAsAscii fnum (s\<lparr>mFptr := Some f\<rparr>) =
       (case r of Inl e \<Rightarrow> Inl e
        | Inr t \<Rightarrow> Inr (s\<lparr>mFptr := Some (f\<lparr>content := content f @ t\<rparr>)\<rparr>))"
proof (cases "at (mSizes s) fnum")
  case (Inl e)
  then show ?thesis
    by (intro exI [of _ "Inl e"]) (simp add: WriteStringAsAscii_def the_file_def)
next
  case sz: (Inr sz)
  show ?thesis
  proof (cases "at (mNel s) fnum")
    case (Inl e)
    with sz show ?thesis
      by (intro exI [of _ "Inl e"]) (simp add: WriteStringAsAscii_def the_file_def)
  next
    case nel: (Inr nel)
    show ?thesis
    proof (cases "c_div sz nel")
      case None
      with sz nel show ?thesis
        by (intro exI [of _ "Inl (Undefined ''division by zero'')"])
           (simp add: WriteStringAsAscii_def the_file_def)
    next
      case (Some slen)
      from write_chars_append [of "mIgnoreNull s" "mPadNull s" "mArea s" "mData s" "upto_n slen"]
      obtain r where r: "\<And>f. room f = None \<Longrightarrow>
        write_chars (mIgnoreNull s) (mPadNull s) (mArea s) (mData s) (upto_n slen) f =
          (case r of Inl e \<Rightarrow> Inl e | Inr t \<Rightarrow> Inr (f\<lparr>content := content f @ t\<rparr>))"
        by blast
      show ?thesis
        using sz nel Some
        by (intro exI [of _ r]) (simp add: WriteStringAsAscii_def the_file_def r split: sum.splits)
    qed
  qed
qed

lemma WriteNumberAsAscii_append:
  "\<exists>r. \<forall>f. room f = None \<longrightarrow>
     WriteNumberAsAscii p (mData s) t (s\<lparr>mFptr := Some f\<rparr>) =
       (case r of Inl e \<Rightarrow> Inl e
        | Inr txt \<Rightarrow> Inr (s\<lparr>mFptr := Some (f\<lparr>content := content f @ txt\<rparr>)\<rparr>))"
proof (cases "t \<in> set (printable p)")
  case False
  then show ?thesis
    by (intro exI [of _ "Inl Throw_dangling"])
       (simp add: WriteNumberAsAscii_def)
next
  case True
  show ?thesis
  proof (cases "at (mPrintFormats s) t")
    case (Inl e)
    with True show ?thesis
      by (intro exI [of _ "Inl e"]) (simp add: WriteNumberAsAscii_def the_file_def)
  next
    case (Inr fmt)
    show ?thesis
    proof (cases "c_fprintf p fmt t (drop (nat (mData s)) (mArea s))")
      case None
      with True Inr show ?thesis
        by (intro exI [of _ "Inl (Throw ''Error writing data'')"])
           (simp add: WriteNumberAsAscii_def the_file_def)
    next
      case (Some out)
      with True Inr show ?thesis
        by (intro exI [of _ "Inr out"])
           (simp add: WriteNumberAsAscii_def the_file_def fputs_unlimited)
    qed
  qed
qed

lemma write_value_append:
  "\<exists>r. \<forall>f. room f = None \<longrightarrow>
     write_value p fnum (s\<lparr>mFptr := Some f\<rparr>) =
       (case r of Inl e \<Rightarrow> Inl e
        | Inr t \<Rightarrow> Inr (s\<lparr>mFptr := Some (f\<lparr>content := content f @ t\<rparr>)\<rparr>))"
proof (cases "at (mTypeNums s) fnum")
  case (Inl e)
  then show ?thesis
    by (intro exI [of _ "Inl e"]) (simp add: write_value_def)
next
  case (Inr t)
  show ?thesis
  proof (cases "t = NPY_STRING p")
    case True
    from WriteStringAsAscii_append [of fnum s] obtain r where
      "\<forall>f. room f = None \<longrightarrow>
         WriteStringAsAscii fnum (s\<lparr>mFptr := Some f\<rparr>) =
           (case r of Inl e \<Rightarrow> Inl e
            | Inr t \<Rightarrow> Inr (s\<lparr>mFptr := Some (f\<lparr>content := content f @ t\<rparr>)\<rparr>))"
      by blast
    with Inr True show ?thesis
      by (intro exI [of _ r]) (simp add: write_value_def)
  next
    case False
    from WriteNumberAsAscii_append [of p s t] obtain r where
      "\<forall>f. room f = None \<longrightarrow>
         WriteNumberAsAscii p (mData s) t (s\<lparr>mFptr := Some f\<rparr>) =
           (case r of Inl e \<Rightarrow> Inl e
            | Inr txt \<Rightarrow> Inr (s\<lparr>mFptr := Some (f\<lparr>content := content f @ txt\<rparr>)\<rparr>))"
      by blast
    with Inr False show ?thesis
      by (intro exI [of _ r]) (simp add: write_value_def)
  qed
qed

text \<open>The value that \<^verbatim>\<open>WriteField\<close> writes is the same wherever the stream stands.\<close>

lemma write_value_text:
  assumes "room f = None" "write_value p fnum (s\<lparr>mFptr := Some f\<rparr>) = Inr s'"
  shows "s' = s\<lparr>mFptr := Some (f\<lparr>content := content f @ value_text p s fnum (mData s)\<rparr>)\<rparr>"
proof -
  from write_value_append [of p fnum s] obtain r where
    r: "\<And>g. room g = None \<Longrightarrow>
         write_value p fnum (s\<lparr>mFptr := Some g\<rparr>) =
           (case r of Inl e \<Rightarrow> Inl e
            | Inr t \<Rightarrow> Inr (s\<lparr>mFptr := Some (g\<lparr>content := content g @ t\<rparr>)\<rparr>))"
    by blast
  from r [OF assms(1)] assms(2) obtain t where
    t: "r = Inr t" and s': "s' = s\<lparr>mFptr := Some (f\<lparr>content := content f @ t\<rparr>)\<rparr>"
    by (cases r) auto
  have "room (file_of []) = None"
    by (simp add: file_of_def)
  from r [OF this] t have "write_value p fnum (s\<lparr>mFptr := Some (file_of [])\<rparr>) =
      Inr (s\<lparr>mFptr := Some ((file_of [])\<lparr>content := content (file_of []) @ t\<rparr>)\<rparr>)"
    by simp
  moreover have "s\<lparr>mFptr := Some (file_of []), mData := mData s\<rparr> = s\<lparr>mFptr := Some (file_of [])\<rparr>"
    by simp
  ultimately have "value_text p s fnum (mData s) = t"
    by (simp add: value_text_def file_of_def)
  with s' show ?thesis
    by simp
qed

lemma value_text_state [simp]:
  "value_text p (S\<lparr>mFptr := x, mData := y\<rparr>) fnum k = value_text p S fnum k"
  "value_text p (S\<lparr>mData := y\<rparr>) fnum k = value_text p S fnum k"
  by (simp_all add: value_text_def)

lemma WriteField_text:
  assumes "room f = None" "WriteField p fnum (S\<lparr>mFptr := Some f, mData := d\<rparr>) = Inr s'"
  shows "s' = S\<lparr>mFptr := Some (f\<lparr>content := content f @ value_text p S fnum d @
                     (if fnum < mNfields S - 1 then mDelim S else [])\<rparr>), mData := d\<rparr>"
proof -
  from assms(2) obtain s1 where
    v: "write_value p fnum (S\<lparr>mFptr := Some f, mData := d\<rparr>) = Inr s1" and
    w: "(if fnum < mNfields s1 - 1
         then andthen (the_file s1) (\<lambda>f. Inr (s1\<lparr>mFptr := Some (snd (fputs (mDelim s1) f))\<rparr>))
         else Inr s1) = Inr s'"
    unfolding WriteField_def andthen_Inr_iff by blast
  have "S\<lparr>mFptr := Some f, mData := d\<rparr> = S\<lparr>mData := d\<rparr>\<lparr>mFptr := Some f\<rparr>"
    by simp
  with v have "write_value p fnum (S\<lparr>mData := d\<rparr>\<lparr>mFptr := Some f\<rparr>) = Inr s1"
    by simp
  from write_value_text [OF assms(1) this]
  have s1: "s1 = S\<lparr>mFptr := Some (f\<lparr>content := content f @ value_text p S fnum d\<rparr>), mData := d\<rparr>"
    by simp
  show ?thesis
  proof (cases "fnum < mNfields S - 1")
    case True
    with w have "s' = s1\<lparr>mFptr := Some (snd (fputs (mDelim s1) (f\<lparr>content := content f @ value_text p S fnum d\<rparr>)))\<rparr>"
      by (auto simp: s1 the_file_def)
    then show ?thesis
      using True by (simp add: s1 fputs_unlimited assms(1))
  next
    case False
    with w have "s' = s1"
      by (auto simp: s1)
    then show ?thesis
      using False by (simp add: s1)
  qed
qed

lemma elements_text:
  assumes "room f = None"
    "for_each (\<lambda>el s'. andthen (WriteField p fnum s') (\<lambda>s''. Inr (s''\<lparr>mData := mData s'' + elsize\<rparr>)))
       els (S\<lparr>mFptr := Some f, mData := d\<rparr>) = Inr s'"
  shows "s' = S\<lparr>mFptr := Some (f\<lparr>content := content f @
                    concat (map (\<lambda>j. value_text p S fnum (d + int j * elsize) @
                                      (if fnum < mNfields S - 1 then mDelim S else []))
                              [0..<length els])\<rparr>),
                 mData := d + int (length els) * elsize\<rparr>"
  using assms
proof (induction els arbitrary: f d)
  case Nil
  then show ?case by simp
next
  case (Cons el els)
  let ?dl = "if fnum < mNfields S - 1 then mDelim S else []"
  from Cons.prems(2) obtain s1 where
    w: "WriteField p fnum (S\<lparr>mFptr := Some f, mData := d\<rparr>) = Inr s1" and
    l: "for_each (\<lambda>el s'. andthen (WriteField p fnum s')
                     (\<lambda>s''. Inr (s''\<lparr>mData := mData s'' + elsize\<rparr>)))
          els (s1\<lparr>mData := mData s1 + elsize\<rparr>) = Inr s'"
    by (auto simp: andthen_Inr_iff)
  let ?f = "f\<lparr>content := content f @ value_text p S fnum d @ ?dl\<rparr>"
  have s1: "s1\<lparr>mData := mData s1 + elsize\<rparr> = S\<lparr>mFptr := Some ?f, mData := d + elsize\<rparr>"
    by (simp add: WriteField_text [OF Cons.prems(1) w])
  have r: "room ?f = None"
    using Cons.prems(1) by simp
  have i: "[0..<length (el # els)] = 0 # map Suc [0..<length els]"
    by (simp add: upt_conv_Cons map_Suc_upt del: upt_Suc)
  from Cons.IH [OF r l [unfolded s1]] show ?case
    by (simp only: i) (simp add: comp_def algebra_simps)
qed

lemma write_elements_text:
  assumes "room f = None" "write_elements p fnum (S\<lparr>mFptr := Some f, mData := d\<rparr>) = Inr s'"
  shows "\<exists>d'. s' = S\<lparr>mFptr := Some (f\<lparr>content := content f @
                    concat (map (\<lambda>(fn, k). value_text p S fn k @
                                      (if fn < mNfields S - 1 then mDelim S else []))
                              (element_offsets S [fnum] d))\<rparr>), mData := d'\<rparr> \<and>
              element_offsets S (fnum # fnums) d =
                element_offsets S [fnum] d @ element_offsets S fnums d'"
proof -
  from assms(2) obtain nel sz elsize where
    n: "at (mNel S) fnum = Inr nel" and z: "at (mSizes S) fnum = Inr sz" and
    c: "c_div sz nel = Some elsize" and
    l: "for_each (\<lambda>el s'. andthen (WriteField p fnum s')
                     (\<lambda>s''. Inr (s''\<lparr>mData := mData s'' + elsize\<rparr>)))
          (upto_n nel) (S\<lparr>mFptr := Some f, mData := d\<rparr>) = Inr s'"
    by (auto simp: write_elements_def andthen_Inr_iff split: option.splits)
  have e: "nel = mNel S ! nat fnum" "sz = mSizes S ! nat fnum" "elsize = sz sdiv nel"
    using n z c by (auto simp: at_def c_div_def split: if_splits)
  have m: "map (\<lambda>j. value_text p S fnum (d + int j * elsize) @
                      (if fnum < mNfields S - 1 then mDelim S else [])) [0..<length (upto_n nel)] =
           map (\<lambda>(fn, k). value_text p S fn k @
                      (if fn < mNfields S - 1 then mDelim S else []))
             (element_offsets S [fnum] d)"
    by (simp add: e upto_n_def comp_def Let_def)
  have "element_offsets S (fnum # fnums) d =
          element_offsets S [fnum] d @
          element_offsets S fnums (d + int (length (upto_n nel)) * elsize)"
    by (simp add: e Let_def)
  with elements_text [OF assms(1) l] m show ?thesis
    by (intro exI [of _ "d + int (length (upto_n nel)) * elsize"]) simp
qed

lemma fields_text:
  assumes "room f = None"
    "for_each (write_elements p) fnums (S\<lparr>mFptr := Some f, mData := d\<rparr>) = Inr s'"
  shows "\<exists>d'. s' = S\<lparr>mFptr := Some (f\<lparr>content := content f @
                    concat (map (\<lambda>(fn, k). value_text p S fn k @
                                      (if fn < mNfields S - 1 then mDelim S else []))
                              (element_offsets S fnums d))\<rparr>), mData := d'\<rparr>"
  using assms
proof (induction fnums arbitrary: f d)
  case Nil
  then show ?case
    by (intro exI [of _ d]) simp
next
  case (Cons fnum fnums)
  let ?T = "\<lambda>(fn, k). value_text p S fn k @ (if fn < mNfields S - 1 then mDelim S else [])"
  from Cons.prems(2) obtain s1 where
    w: "write_elements p fnum (S\<lparr>mFptr := Some f, mData := d\<rparr>) = Inr s1" and
    l: "for_each (write_elements p) fnums s1 = Inr s'"
    by (auto simp: andthen_Inr_iff)
  from write_elements_text [OF Cons.prems(1) w, of fnums] obtain d1 where
    s1: "s1 = S\<lparr>mFptr := Some (f\<lparr>content := content f @
                    concat (map ?T (element_offsets S [fnum] d))\<rparr>), mData := d1\<rparr>" and
    e: "element_offsets S (fnum # fnums) d =
          element_offsets S [fnum] d @ element_offsets S fnums d1"
    by blast
  let ?f = "f\<lparr>content := content f @ concat (map ?T (element_offsets S [fnum] d))\<rparr>"
  have r: "room ?f = None"
    using Cons.prems(1) by simp
  from Cons.IH [OF r l [unfolded s1]] obtain d' where
    "s' = S\<lparr>mFptr := Some (?f\<lparr>content := content ?f @
                    concat (map ?T (element_offsets S fnums d1))\<rparr>), mData := d'\<rparr>"
    by blast
  then show ?case
    by (intro exI [of _ d']) (simp only: e, simp)
qed

lemma element_offsets_fields:
  "(fn, k) \<in> set (element_offsets S fnums d) \<Longrightarrow> fn \<in> set fnums"
  by (induction fnums arbitrary: d) (auto simp: Let_def)

lemma element_offsets_append:
  "\<exists>d'. element_offsets S (xs @ ys) d = element_offsets S xs d @ element_offsets S ys d'"
proof (induction xs arbitrary: d)
  case Nil
  show ?case
    by (intro exI [of _ d]) simp
next
  case (Cons x xs)
  let ?d = "d + int (nat (mNel S ! nat x)) * (mSizes S ! nat x sdiv mNel S ! nat x)"
  from Cons [of ?d] obtain d' where
    "element_offsets S (xs @ ys) ?d = element_offsets S xs ?d @ element_offsets S ys d'"
    by blast
  then show ?case
    by (intro exI [of _ d']) (simp add: Let_def)
qed

lemma element_offsets_single:
  "mNel S ! nat fnum = 1 \<Longrightarrow> element_offsets S [fnum] d = [(fnum, d)]"
  by (simp add: upto_n_def)

lemma upto_n_last: "0 < n \<Longrightarrow> upto_n n = upto_n (n - 1) @ [n - 1]"
proof -
  assume "0 < n"
  then have "nat n = Suc (nat (n - 1))"
    by arith
  then have "upto_n n = map int [0..<nat (n - 1)] @ [int (nat (n - 1))]"
    by (simp add: upto_n_def)
  with \<open>0 < n\<close> show ?thesis
    by (simp add: upto_n_def)
qed

lemma join_map_nonempty:
  "ts \<noteq> [] \<Longrightarrow> join dl (t # ts) = t @ dl @ join dl ts"
  by (cases ts) simp_all

lemma concat_join:
  assumes "\<forall>x\<in>set E. P x" "\<not> P e"
  shows "concat (map (\<lambda>x. T x @ (if P x then dl else [])) (E @ [e])) = join dl (map T (E @ [e]))"
  using assms(1)
proof (induction E)
  case Nil
  then show ?case
    using assms(2) by simp
next
  case (Cons x E)
  have "map T (E @ [e]) \<noteq> []"
    by simp
  from join_map_nonempty [OF this, of dl "T x"] Cons show ?case
    by simp
qed

lemma write_row_text:
  assumes "mFptr s = Some f" "room f = None" "write_row p row s = Inr s'"
  shows "map_option content (mFptr s') =
           Some (content f @
                 concat (map (\<lambda>(fn, k). value_text p s fn k @
                                   (if fn < mNfields s - 1 then mDelim s else []))
                           (element_offsets s (upto_n (mNfields s)) (mData s))) @
                 [NEWLINE])"
proof -
  from assms(3) obtain s1 f1 where
    l: "for_each (write_elements p) (upto_n (mNfields s)) s = Inr s1" and
    f1: "the_file s1 = Inr f1" and
    s': "s' = s1\<lparr>mFptr := Some (snd (fputc NEWLINE f1))\<rparr>"
    unfolding write_row_def andthen_Inr_iff by blast
  have "s = s\<lparr>mFptr := Some f, mData := mData s\<rparr>"
    using assms(1) by simp
  with l have "for_each (write_elements p) (upto_n (mNfields s))
                 (s\<lparr>mFptr := Some f, mData := mData s\<rparr>) = Inr s1"
    by simp
  from fields_text [OF assms(2) this] obtain d' where
    s1: "s1 = s\<lparr>mFptr := Some (f\<lparr>content := content f @
                    concat (map (\<lambda>(fn, k). value_text p s fn k @
                                      (if fn < mNfields s - 1 then mDelim s else []))
                              (element_offsets s (upto_n (mNfields s)) (mData s)))\<rparr>),
                  mData := d'\<rparr>"
    by blast
  from f1 have "mFptr s1 = Some f1"
    by (simp add: the_file_def split: option.splits)
  then have "f1 = f\<lparr>content := content f @
                    concat (map (\<lambda>(fn, k). value_text p s fn k @
                                      (if fn < mNfields s - 1 then mDelim s else []))
                              (element_offsets s (upto_n (mNfields s)) (mData s)))\<rparr>"
    by (subst (asm) s1) simp
  then have "content (snd (fputc NEWLINE f1)) =
               content f @
               concat (map (\<lambda>(fn, k). value_text p s fn k @
                                 (if fn < mNfields s - 1 then mDelim s else []))
                         (element_offsets s (upto_n (mNfields s)) (mData s))) @ [NEWLINE]"
    using assms(2) by (simp add: fputc_unlimited)
  then show ?thesis
    by (simp add: s')
qed

text \<open>
  Claim C4, as the code has it. \<^verbatim>\<open>WriteField\<close> is called for every element of a field,
  and writes the delimiter after the element whenever the field is not the last one. So
  in a row whose last field holds one value, the delimiter stands exactly between
  consecutive values, those of one field included, never after the last value, and one
  newline ends the row: on a stream that accepts every byte, a row that is written
  without error appends the texts of its values joined by the delimiter, then the
  newline.
\<close>

theorem delimiter_between_values:
  assumes "mFptr s = Some f" "room f = None"
    and "mNfields s \<le> 0 \<or> mNel s ! nat (mNfields s - 1) = 1"
    and "write_row p row s = Inr s'"
  shows "map_option content (mFptr s') =
           Some (content f @ join (mDelim s) (row_texts p s) @ [NEWLINE])"
proof (cases "mNfields s \<le> 0")
  case True
  then have "upto_n (mNfields s) = []"
    by (simp add: upto_n_def)
  with write_row_text [OF assms(1,2,4)] show ?thesis
    by (simp add: row_texts_def)
next
  case False
  let ?n = "mNfields s"
  let ?T = "\<lambda>(fn, k). value_text p s fn k"
  let ?P = "\<lambda>(fn, k). fn < ?n - 1"
  from False assms(3) have one: "mNel s ! nat (?n - 1) = 1"
    by simp
  from False have u: "upto_n ?n = upto_n (?n - 1) @ [?n - 1]"
    by (simp add: upto_n_last)
  from element_offsets_append [of s "upto_n (?n - 1)" "[?n - 1]" "mData s"] obtain d' where
    e: "element_offsets s (upto_n ?n) (mData s) =
          element_offsets s (upto_n (?n - 1)) (mData s) @ [(?n - 1, d')]"
    by (auto simp only: u element_offsets_single [OF one])
  have "\<forall>x\<in>set (element_offsets s (upto_n (?n - 1)) (mData s)). ?P x"
  proof
    fix x
    assume x: "x \<in> set (element_offsets s (upto_n (?n - 1)) (mData s))"
    obtain fn k where "x = (fn, k)"
      by (cases x)
    with x element_offsets_fields [of fn k s "upto_n (?n - 1)" "mData s"]
    have "fn \<in> set (upto_n (?n - 1))"
      by simp
    then have "fn < ?n - 1"
      by (simp add: upto_n_sorted)
    with \<open>x = (fn, k)\<close> show "?P x"
      by simp
  qed
  moreover have "\<not> ?P (?n - 1, d')"
    by simp
  ultimately have
    "concat (map (\<lambda>x. ?T x @ (if ?P x then mDelim s else []))
               (element_offsets s (upto_n (?n - 1)) (mData s) @ [(?n - 1, d')])) =
     join (mDelim s) (map ?T (element_offsets s (upto_n (?n - 1)) (mData s) @ [(?n - 1, d')]))"
    by (rule concat_join)
  then have
    "concat (map (\<lambda>(fn, k). value_text p s fn k @ (if fn < ?n - 1 then mDelim s else []))
               (element_offsets s (upto_n ?n) (mData s))) =
     join (mDelim s) (row_texts p s)"
    by (simp only: e row_texts_def) (simp add: case_prod_unfold)
  with write_row_text [OF assms(1,2,4)] show ?thesis
    by simp
qed

text \<open>
  The theorem at work: a row of a field of the two strings \<open>a\<close> and \<open>b\<close> and a field of the
  string \<open>c\<close>, delimiter a comma, is written as \<^verbatim>\<open>a,b,c\<close> and a newline.
\<close>

theorem delimiter_between_values_witness:
  "map_sum id (\<lambda>s. map_option content (mFptr s))
     (write_row example_platform 0 mixed_session) = Inr (Some (''a,b,c'' @ [NEWLINE]))"
proof -
  have r: "write_row example_platform 0 mixed_session =
             Inr (projr (write_row example_platform 0 mixed_session))"
    by code_simp
  have h: "mFptr mixed_session = Some (file_of [])" "room (file_of []) = None"
    "mNfields mixed_session \<le> 0 \<or>
     mNel mixed_session ! nat (mNfields mixed_session - 1) = 1"
    by code_simp+
  have t: "content (file_of []) = []"
    "join (mDelim mixed_session) (row_texts example_platform mixed_session) = ''a,b,c''"
    by code_simp+
  have "map_option content (mFptr (projr (write_row example_platform 0 mixed_session))) =
          Some (''a,b,c'' @ [NEWLINE])"
    by (simp only: delimiter_between_values [OF h r] t append_Nil)
  then show ?thesis
    by (subst r) simp
qed

text \<open>
  Claim C4 as stated fails for fields of several elements. An array of one row with two
  fields of two one-byte strings each, \<open>a\<close>, \<open>b\<close> and \<open>c\<close>, \<open>d\<close>, written with the delimiter
  a comma, gives the row \<^verbatim>\<open>a,b,cd\<close>: the delimiter stands between the two elements of the
  first field as well as between the fields, and nothing separates the two elements of
  the last field. Neither the two fields joined by the delimiter nor the four values
  joined by it are what is written.
\<close>

theorem multi_element_counterexample:
  "map_sum id (\<lambda>s. map_option content (mFptr s))
     (andthen
        (Records (FileObject (Some (file_of []))) ''w'' (Some (PyString '','')) DtypeNull (- 9999))
        (Write example_platform (NdArray pairs_descr 1 ''abcd'') False False))
     = Inr (Some (''a,b,cd'' @ [NEWLINE])) \<and>
   ''a,b,cd'' \<noteq> join '','' [''ab'', ''cd''] \<and>
   ''a,b,cd'' \<noteq> join '','' [''a'', ''b'', ''c'', ''d'']"
  by code_simp

subsection \<open>Later reads of a session\<close>

text \<open>
  Claim C1 is not met by the code. \<^verbatim>\<open>ReadPrepare\<close> sets the flag of the strategy it
  selects and clears neither flag, \<^verbatim>\<open>InitializeVariables\<close> runs in the constructor only,
  and \<^verbatim>\<open>ReadFromFile\<close> tests \<^verbatim>\<open>mReadWholeFileBinary\<close> first: once a read of a session has
  taken the whole file, every later read of the session takes the whole-file path.

  A binary file of 18 bytes is opened with the schema \<open>[a, b, c]\<close> and three rows. The
  first read, with no subset, reads nine bytes in one block. A second read of the
  session asks for row 0 only: both flags are set, and the bulk read of nine bytes goes
  to the output array of one row, three bytes long. A read of the rows 0 and 2 of the
  fields \<open>c\<close> and \<open>a\<close> in place of it does the same with an array of four bytes. The same
  two requests as the first read of a session on the stream at that position read the
  row \<^verbatim>\<open>jkl\<close> as one block, and the fields \<^verbatim>\<open>j\<close>, \<^verbatim>\<open>l\<close>, \<^verbatim>\<open>p\<close>, \<^verbatim>\<open>r\<close> one by one.
\<close>

theorem stale_strategy_flag:
  "map_sum id (\<lambda>s. (mArea s, map_option pos (mFptr s)))
     (andthen
        (Records (FileObject (Some (file_of ''abcdefghijklmnopqr''))) ''r'' None
           (DtypeDescr abc_descr) 3)
        (Read example_platform RowsAbsent None))
     = Inr (''abcdefghi'', Some 9) \<and>
   map_sum id (\<lambda>s. (mReadWholeFileBinary s, mReadWholeRowBinary s, length (mArea s)))
     (andthen
        (Records (FileObject (Some (file_of ''abcdefghijklmnopqr''))) ''r'' None
           (DtypeDescr abc_descr) 3)
        (\<lambda>s0. andthen (Read example_platform RowsAbsent None s0)
           (\<lambda>s1. andthen (selection (RowsArray [0]) None s1)
              (\<lambda>s3. Inr (ReadPrepare example_platform s3)))))
     = Inr (True, True, 3) \<and>
   andthen
     (Records (FileObject (Some (file_of ''abcdefghijklmnopqr''))) ''r'' None
        (DtypeDescr abc_descr) 3)
     (\<lambda>s0. andthen (Read example_platform RowsAbsent None s0)
        (Read example_platform (RowsArray [0]) None))
     = Inl (Undefined ''store outside the data area'') \<and>
   andthen
     (Records (FileObject (Some (file_of ''abcdefghijklmnopqr''))) ''r'' None
        (DtypeDescr abc_descr) 3)
     (\<lambda>s0. andthen (Read example_platform RowsAbsent None s0)
        (Read example_platform (RowsArray [0, 2])
           (Some (PyList [PyString ''c'', PyString ''a'']))))
     = Inl (Undefined ''store outside the data area'') \<and>
   map_sum id (\<lambda>s. (mArea s, map_option pos (mFptr s)))
     (andthen
        (Records (FileObject (Some ((file_of ''abcdefghijklmnopqr'')\<lparr>pos := 9\<rparr>))) ''r'' None
           (DtypeDescr abc_descr) 3)
        (Read example_platform (RowsArray [0]) None))
     = Inr (''jkl'', Some 12) \<and>
   map_sum id (\<lambda>s. (mArea s, map_option pos (mFptr s)))
     (andthen
        (Records (FileObject (Some ((file_of ''abcdefghijklmnopqr'')\<lparr>pos := 9\<rparr>))) ''r'' None
           (DtypeDescr abc_descr) 3)
        (Read example_platform (RowsArray [0, 2])
           (Some (PyList [PyString ''c'', PyString ''a'']))))
     = Inr (''jlpr'', Some 18)"
  by code_simp

end
